theory Spec2Isabelle
  imports Complex_Main "HOL-Library.Char_ord" "HOL-Library.List_Lexorder"
    "HOL-Library.Product_Lexorder" "HOL-Library.Multiset"
begin

section \<open>The data preparation script \<^verbatim>\<open>prepare-data.py\<close>\<close>

text \<open>
  The script is one straight-line pandas program: it loads a table, filters it, rewrites
  three columns, adds three columns, sorts and writes the result. The table is modelled as
  the list of its rows, in row order, each row a record of the columns the script names.
  Every statement of the script becomes a function from table to table; a statement that
  can raise returns \<open>error + table\<close>.

  Two things the script relies on are library behaviour (pandas, \<^verbatim>\<open>re\<close>,
  \<^verbatim>\<open>unidecode\<close>), and are written out here as far as the script uses them:
  \<^item> cells are present values, except \<^verbatim>\<open>KURSTXT\<close>, which may be missing (NaN,
    modelled as \<open>None\<close>) because line 34 passes \<^verbatim>\<open>na=False\<close> for it;
  \<^item> strings are ASCII strings. On ASCII text \<^verbatim>\<open>unidecode\<close> is the identity; its
    tables for other characters are not part of the repository.
\<close>

subsection \<open>Errors and sequencing\<close>

datatype error = KeyError string | AttributeError | ValueError | IndexError

definition and_then :: "error + 'a \<Rightarrow> ('a \<Rightarrow> error + 'b) \<Rightarrow> error + 'b" where
  "and_then r f = (case r of Inl e \<Rightarrow> Inl e | Inr x \<Rightarrow> f x)"

text \<open>A function applied to every element in turn; the first raise aborts the whole.\<close>

fun traverse :: "('a \<Rightarrow> error + 'b) \<Rightarrow> 'a list \<Rightarrow> error + 'b list" where
  "traverse f [] = Inr []"
| "traverse f (x # xs) =
     (case f x of
        Inl e \<Rightarrow> Inl e
      | Inr y \<Rightarrow> (case traverse f xs of Inl e \<Rightarrow> Inl e | Inr ys \<Rightarrow> Inr (y # ys)))"

subsection \<open>Columns and rows (lines 7--16)\<close>

definition EDUCATION :: string where
  "EDUCATION = ''UDDANNELSE''"

definition SEMESTER_END :: string where
  "SEMESTER_END = ''SEMESTER_END''"

text \<open>
  The row after \<^verbatim>\<open>UDDANNELSE\<close> has been dropped. The type parameter is the type of the
  course text: \<open>string option\<close> as loaded, \<open>string\<close> once line 53 has normalised it.
\<close>

record 't row =
  study_number :: string
  course_number :: string
  course_text :: 't
  grade :: string
  grading_scale :: string
  ects :: rat
  exam_form :: string
  censor :: string
  grading_date :: string

record 't raw_row = "'t row" +
  education :: string

text \<open>The rows with the columns the script adds: line 91, line 103 and line 113.\<close>

record srow = "string row" +
  semester :: string

record erow = srow +
  semester_end :: string

record arow = erow +
  attempt :: nat

text \<open>
  The loaded table either has the column \<^verbatim>\<open>UDDANNELSE\<close> or it has not: line 24 reads
  the column by name, which raises \<^verbatim>\<open>KeyError\<close> on a table without it.
\<close>

datatype frame =
  With_Education "string option raw_row list"
| Without_Education "string option row list"

subsection \<open>Cohort filter (lines 24--25)\<close>

definition cohort_filter :: "frame \<Rightarrow> error + string option row list" where
  "cohort_filter df =
     (case df of
        Without_Education rows \<Rightarrow> Inl (KeyError EDUCATION)
      | With_Education rows \<Rightarrow>
          Inr (map row.truncate
                 (filter (\<lambda>r. education r = ''Softwareteknologi, ing.prof.bach.'') rows)))"

subsection \<open>Minimum activity filter (lines 28--30)\<close>

definition minimum_activity_filter :: "('t, 'z) row_scheme list \<Rightarrow> ('t, 'z) row_scheme list" where
  "minimum_activity_filter df =
     (let course_counts = count_list (map study_number df);
          valid_study_numbers =
            filter (\<lambda>s. 2 < course_counts s) (remdups (map study_number df))
      in filter (\<lambda>r. study_number r \<in> set valid_study_numbers) df)"

subsection \<open>Strings\<close>

definition lowercase_letters :: string where
  "lowercase_letters = ''abcdefghijklmnopqrstuvwxyz''"

definition uppercase_letters :: string where
  "uppercase_letters = ''ABCDEFGHIJKLMNOPQRSTUVWXYZ''"

definition upper_char :: "char \<Rightarrow> char" where
  "upper_char c =
     (case map_of (zip lowercase_letters uppercase_letters) c of None \<Rightarrow> c | Some u \<Rightarrow> u)"

definition upper :: "string \<Rightarrow> string" where
  "upper text = map upper_char text"

definition is_digit :: "char \<Rightarrow> bool" where
  "is_digit c = (c \<in> set ''0123456789'')"

text \<open>
  The characters \<^verbatim>\<open>str.strip()\<close> removes, among ASCII: tab, line feed, vertical tab,
  form feed, carriage return, the four separators \<^verbatim>\<open>0x1C\<close> to \<^verbatim>\<open>0x1F\<close>, and space.
\<close>

definition is_space :: "char \<Rightarrow> bool" where
  "is_space c =
     (c \<in> set [CHR 0x09, CHR 0x0A, CHR 0x0B, CHR 0x0C, CHR 0x0D,
               CHR 0x1C, CHR 0x1D, CHR 0x1E, CHR 0x1F, CHR 0x20])"

definition strip :: "string \<Rightarrow> string" where
  "strip text = rev (dropWhile is_space (rev (dropWhile is_space text)))"

definition is_ascii :: "char \<Rightarrow> bool" where
  "is_ascii c = (c < CHR 0x80)"

text \<open>
  \<^verbatim>\<open>unidecode\<close> maps every character to a string of ASCII characters, an ASCII character
  to itself. A character it has no table entry for is left out; so is, here, every other
  character.
\<close>

definition unidecode :: "string \<Rightarrow> string" where
  "unidecode text = concat (map (\<lambda>c. if is_ascii c then [c] else []) text)"

text \<open>\<^verbatim>\<open>sub in text\<close>\<close>

definition startswith :: "string \<Rightarrow> string \<Rightarrow> bool" where
  "startswith text sub = (take (length sub) text = sub)"

fun str_in :: "string \<Rightarrow> string \<Rightarrow> bool" where
  "str_in sub [] = (sub = [])"
| "str_in sub (c # cs) = (startswith (c # cs) sub \<or> str_in sub cs)"

subsection \<open>Institute exclusion filter (lines 33--37)\<close>

text \<open>
  \<^verbatim>\<open>str.contains("institut", regex=False, na=False, case=False)\<close>: pandas compares the
  upper-cased pattern with the upper-cased cell, and answers \<^verbatim>\<open>na\<close> for a missing cell.
\<close>

definition str_contains_institut :: "string option \<Rightarrow> bool" where
  "str_contains_institut cell =
     (case cell of None \<Rightarrow> False | Some text \<Rightarrow> str_in (upper ''institut'') (upper text))"

definition institute_filter ::
  "(string option, 'z) row_scheme list \<Rightarrow> (string option, 'z) row_scheme list" where
  "institute_filter df =
     (let institute_study_numbers =
            remdups (map study_number (filter (\<lambda>r. str_contains_institut (course_text r)) df))
      in filter (\<lambda>r. study_number r \<notin> set institute_study_numbers) df)"

subsection \<open>Text normaliser (lines 45--53)\<close>

text \<open>\<^verbatim>\<open>re.sub(r"^\d+", "", text)\<close>: the run of digits at the start of the text is removed.\<close>

definition re_sub_leading_digits :: "string \<Rightarrow> string" where
  "re_sub_leading_digits text = dropWhile is_digit text"

definition normalize_text :: "string \<Rightarrow> string" where
  "normalize_text text = strip (unidecode (re_sub_leading_digits (upper text)))"

definition with_course_text :: "'a row \<Rightarrow> 'b \<Rightarrow> 'b row" where
  "with_course_text r text =
     \<lparr>study_number = study_number r, course_number = course_number r, course_text = text,
      grade = grade r, grading_scale = grading_scale r, ects = ects r,
      exam_form = exam_form r, censor = censor r, grading_date = grading_date r\<rparr>"

text \<open>
  Line 53 calls \<^verbatim>\<open>normalize_text\<close> on every cell. A missing cell is the float NaN, which
  has no method \<^verbatim>\<open>upper\<close>: line 46 raises \<^verbatim>\<open>AttributeError\<close>.
\<close>

definition apply_normalize_text :: "string option row list \<Rightarrow> error + string row list" where
  "apply_normalize_text df =
     traverse (\<lambda>r. case course_text r of
                      None \<Rightarrow> Inl AttributeError
                    | Some text \<Rightarrow> Inr (with_course_text r (normalize_text text))) df"

subsection \<open>Course code canonicaliser (lines 59--72)\<close>

text \<open>
  \<^verbatim>\<open>unique\<close> lists the distinct values in order of first appearance;
  \<^verbatim>\<open>value_counts\<close> lists them with their counts, largest count first and otherwise in
  order of first appearance; \<^verbatim>\<open>idxmax\<close> is the first label carrying the largest value and
  raises \<^verbatim>\<open>ValueError\<close> on an empty series.
\<close>

definition unique :: "'a list \<Rightarrow> 'a list" where
  "unique xs = rev (remdups (rev xs))"

definition nunique :: "'a list \<Rightarrow> nat" where
  "nunique xs = length (unique xs)"

definition value_counts :: "'a list \<Rightarrow> ('a \<times> nat) list" where
  "value_counts xs =
     sort_key (\<lambda>p. - int (snd p)) (map (\<lambda>v. (v, count_list xs v)) (unique xs))"

definition idxmax :: "('a \<times> nat) list \<Rightarrow> error + 'a" where
  "idxmax s =
     (case find (\<lambda>p. snd p = fold max (map snd s) 0) s of
        None \<Rightarrow> Inl ValueError
      | Some p \<Rightarrow> Inr (fst p))"

text \<open>
  \<^verbatim>\<open>df.groupby([COURSE_TEXT, ECTS])[COURSE_NUMBER]\<close>: one series of course numbers for
  every key that occurs, the keys in ascending order.
\<close>

definition group_key :: "(string, 'z) row_scheme \<Rightarrow> string \<times> rat" where
  "group_key r = (course_text r, ects r)"

definition get_group :: "(string, 'z) row_scheme list \<Rightarrow> string \<times> rat \<Rightarrow> string list" where
  "get_group df k = map course_number (filter (\<lambda>r. group_key r = k) df)"

definition grouped :: "(string, 'z) row_scheme list \<Rightarrow> ((string \<times> rat) \<times> string list) list" where
  "grouped df = map (\<lambda>k. (k, get_group df k)) (sort (remdups (map group_key df)))"

text \<open>Line 72: of rows that are equal in every column the first is kept.\<close>

fun drop_duplicates :: "'a list \<Rightarrow> 'a list" where
  "drop_duplicates [] = []"
| "drop_duplicates (x # xs) = x # drop_duplicates (filter (\<lambda>y. y \<noteq> x) xs)"

text \<open>Line 69, for one row: \<^verbatim>\<open>mapping.get(k, num)\<close> becomes its course number.\<close>

definition mapping_get ::
  "((string \<times> rat) \<times> string) list \<Rightarrow> (string, 'z) row_scheme \<Rightarrow> (string, 'z) row_scheme" where
  "mapping_get mapping r =
     (case map_of mapping (group_key r) of None \<Rightarrow> r | Some c \<Rightarrow> r\<lparr>course_number := c\<rparr>)"

definition canonicalizer ::
  "(string, 'z) row_scheme list \<Rightarrow> error + (string, 'z) row_scheme list" where
  "canonicalizer df =
     (let counts = map (\<lambda>(k, s). (k, nunique s)) (grouped df);
          duplicate_keys = map fst (filter (\<lambda>(k, n). 1 < n) counts)
      in if 0 < length duplicate_keys then
           and_then
             (traverse (\<lambda>(k, s). case idxmax (value_counts s) of
                                   Inl e \<Rightarrow> Inl e
                                 | Inr c \<Rightarrow> Inr (k, c)) (grouped df))
             (\<lambda>canonical.
                and_then
                  (traverse (\<lambda>key. case map_of canonical key of
                                     None \<Rightarrow> Inl (KeyError (fst key))
                                   | Some c \<Rightarrow> Inr (key, c)) duplicate_keys)
                  (\<lambda>mapping. Inr (drop_duplicates (map (mapping_get mapping) df))))
         else Inr df)"

subsection \<open>Dates (lines 80--81)\<close>

record date =
  year :: nat
  month :: nat
  day :: nat

definition digit_value :: "char \<Rightarrow> nat" where
  "digit_value c = (case map_of (zip ''0123456789'' [0, 1, 2, 3, 4, 5, 6, 7, 8, 9]) c of
                      None \<Rightarrow> 0 | Some n \<Rightarrow> n)"

definition digit_char :: "nat \<Rightarrow> char" where
  "digit_char n = ''0123456789'' ! (n mod 10)"

fun split_on :: "char \<Rightarrow> string \<Rightarrow> string list" where
  "split_on sep [] = [[]]"
| "split_on sep (c # cs) =
     (if c = sep then [] # split_on sep cs
      else (case split_on sep cs of
              [] \<Rightarrow> [[c]]
            | w # ws \<Rightarrow> (c # w) # ws))"

text \<open>
  The directives of \<^verbatim>\<open>strptime\<close> as pandas matches them:
  \<^verbatim>\<open>%d\<close> is \<^verbatim>\<open>3[0-1]|[1-2]\d|0[1-9]|[1-9]| [1-9]\<close>,
  \<^verbatim>\<open>%m\<close> is \<^verbatim>\<open>1[0-2]|0[1-9]|[1-9]\<close> and \<^verbatim>\<open>%Y\<close> is four digits.
\<close>

definition directive_d :: "string \<Rightarrow> nat option" where
  "directive_d field =
     (case field of
        [a] \<Rightarrow> if is_digit a \<and> a \<noteq> CHR ''0'' then Some (digit_value a) else None
      | [a, b] \<Rightarrow>
          if a = CHR ''3'' \<and> (b = CHR ''0'' \<or> b = CHR ''1'') then Some (30 + digit_value b)
          else if (a = CHR ''1'' \<or> a = CHR ''2'') \<and> is_digit b
            then Some (10 * digit_value a + digit_value b)
          else if (a = CHR ''0'' \<or> a = CHR '' '') \<and> is_digit b \<and> b \<noteq> CHR ''0''
            then Some (digit_value b)
          else None
      | _ \<Rightarrow> None)"

definition directive_m :: "string \<Rightarrow> nat option" where
  "directive_m field =
     (case field of
        [a] \<Rightarrow> if is_digit a \<and> a \<noteq> CHR ''0'' then Some (digit_value a) else None
      | [a, b] \<Rightarrow>
          if a = CHR ''1'' \<and> (b = CHR ''0'' \<or> b = CHR ''1'' \<or> b = CHR ''2'')
            then Some (10 + digit_value b)
          else if a = CHR ''0'' \<and> is_digit b \<and> b \<noteq> CHR ''0'' then Some (digit_value b)
          else None
      | _ \<Rightarrow> None)"

definition directive_Y :: "string \<Rightarrow> nat option" where
  "directive_Y field =
     (case field of
        [a, b, c, d] \<Rightarrow>
          if is_digit a \<and> is_digit b \<and> is_digit c \<and> is_digit d
            then Some (1000 * digit_value a + 100 * digit_value b + 10 * digit_value c
                       + digit_value d)
          else None
      | _ \<Rightarrow> None)"

definition is_leap :: "nat \<Rightarrow> bool" where
  "is_leap y = (y mod 4 = 0 \<and> (y mod 100 \<noteq> 0 \<or> y mod 400 = 0))"

definition days_in_month :: "nat \<Rightarrow> nat \<Rightarrow> nat" where
  "days_in_month y m =
     (if m = 2 then (if is_leap y then 29 else 28)
      else if m = 4 \<or> m = 6 \<or> m = 9 \<or> m = 11 then 30
      else 31)"

text \<open>
  A nanosecond timestamp holds the days from 1677-09-22 to 2262-04-11; a date outside
  raises \<^verbatim>\<open>OutOfBoundsDatetime\<close>, which is a \<^verbatim>\<open>ValueError\<close>, as a day the month
  has not.
\<close>

definition in_bounds :: "date \<Rightarrow> bool" where
  "in_bounds d =
     ((1677, 9, 22) \<le> (year d, month d, day d) \<and> (year d, month d, day d) \<le> (2262, 4, 11))"

definition to_timestamp :: "nat option \<Rightarrow> nat option \<Rightarrow> nat option \<Rightarrow> error + date" where
  "to_timestamp y m d =
     (case (y, m, d) of
        (Some y, Some m, Some d) \<Rightarrow>
          if d \<le> days_in_month y m \<and> in_bounds \<lparr>year = y, month = m, day = d\<rparr>
            then Inr \<lparr>year = y, month = m, day = d\<rparr>
          else Inl ValueError
      | _ \<Rightarrow> Inl ValueError)"

text \<open>\<^verbatim>\<open>pd.to_datetime(value, format="%d/%m/%Y")\<close>\<close>

definition to_datetime_dmy :: "string \<Rightarrow> error + date" where
  "to_datetime_dmy text =
     (case split_on CHR ''/'' text of
        [d, m, y] \<Rightarrow> to_timestamp (directive_Y y) (directive_m m) (directive_d d)
      | _ \<Rightarrow> Inl ValueError)"

text \<open>
  \<^verbatim>\<open>pd.to_datetime(value, format="%Y-%m-%d")\<close>, which the script applies only to
  what \<^verbatim>\<open>strftime("%Y-%m-%d")\<close> has written.
\<close>

definition to_datetime_ymd :: "string \<Rightarrow> error + date" where
  "to_datetime_ymd text =
     (case split_on CHR ''-'' text of
        [y, m, d] \<Rightarrow> to_timestamp (directive_Y y) (directive_m m) (directive_d d)
      | _ \<Rightarrow> Inl ValueError)"

text \<open>\<^verbatim>\<open>strftime("%Y-%m-%d")\<close>\<close>

definition strftime_ymd :: "date \<Rightarrow> string" where
  "strftime_ymd d =
     [digit_char (year d div 1000), digit_char (year d div 100), digit_char (year d div 10),
      digit_char (year d)] @ ''-'' @
     [digit_char (month d div 10), digit_char (month d)] @ ''-'' @
     [digit_char (day d div 10), digit_char (day d)]"

definition convert_grading_dates ::
  "('t, 'z) row_scheme list \<Rightarrow> error + ('t, 'z) row_scheme list" where
  "convert_grading_dates df =
     traverse (\<lambda>r. case to_datetime_dmy (grading_date r) of
                      Inl e \<Rightarrow> Inl e
                    | Inr d \<Rightarrow> Inr (r\<lparr>grading_date := strftime_ymd d\<rparr>)) df"

subsection \<open>Semester labeller (lines 85--91)\<close>

text \<open>The decimal numeral of a number, as an f-string prints an integer.\<close>

fun string_of_nat :: "nat \<Rightarrow> string" where
  "string_of_nat n =
     (if n < 10 then [digit_char n] else string_of_nat (n div 10) @ [digit_char n])"

declare string_of_nat.simps [simp del]

definition get_semester :: "string \<Rightarrow> error + string" where
  "get_semester v =
     (case to_datetime_ymd v of
        Inl e \<Rightarrow> Inl e
      | Inr d \<Rightarrow>
          Inr ((if month d \<le> 4 \<or> month d \<ge> 10 then ''Fall'' else ''Spring'')
               @ '' '' @ string_of_nat (year d)))"

definition add_semester :: "string row list \<Rightarrow> error + srow list" where
  "add_semester df =
     traverse (\<lambda>r. case get_semester (grading_date r) of
                      Inl e \<Rightarrow> Inl e
                    | Inr s \<Rightarrow> Inr (row.extend r (srow.fields s))) df"

subsection \<open>Semester date aligner (lines 95--108)\<close>

text \<open>Lines 98--101: the first of June of the year for a spring semester, else the first of December.\<close>

definition new_date :: "string \<Rightarrow> nat \<Rightarrow> date" where
  "new_date semester_label y =
     (if str_in ''Spring'' semester_label then \<lparr>year = y, month = 6, day = 1\<rparr>
      else \<lparr>year = y, month = 12, day = 1\<rparr>)"

definition set_semester_grading_dates :: "srow list \<Rightarrow> error + erow list" where
  "set_semester_grading_dates grp =
     (case grp of
        [] \<Rightarrow> Inl IndexError
      | first # _ \<Rightarrow>
          and_then (traverse (\<lambda>r. to_datetime_ymd (grading_date r)) grp)
            (\<lambda>dates.
               case dates of
                 [] \<Rightarrow> Inl IndexError
               | d # _ \<Rightarrow>
                   Inr (map (\<lambda>r. srow.extend r
                                    (erow.fields (strftime_ymd (new_date (semester first) (year d)))))
                          grp)))"

text \<open>
  \<^verbatim>\<open>df.groupby([STUDY_NUMBER, "SEMESTER"]).apply(...)\<close> followed by
  \<^verbatim>\<open>reset_index(drop=True)\<close>: the groups come in ascending order of their keys, the
  rows of a group in their order in the table, and the results are concatenated in that
  order (pandas 2, where the group keys become index levels that line 108 drops).
\<close>

definition semester_key :: "srow \<Rightarrow> string \<times> string" where
  "semester_key r = (study_number r, semester r)"

definition groupby_apply_set_semester_grading_dates :: "srow list \<Rightarrow> error + erow list" where
  "groupby_apply_set_semester_grading_dates df =
     and_then
       (traverse (\<lambda>k. set_semester_grading_dates (filter (\<lambda>r. semester_key r = k) df))
          (sort (remdups (map semester_key df))))
       (\<lambda>groups. Inr (concat groups))"

subsection \<open>Attempt counter (line 113)\<close>

text \<open>
  \<^verbatim>\<open>cumcount\<close> numbers the rows of each group from 0 in row order: a row gets the number
  of rows above it that have its key.
\<close>

fun cumcount :: "'k list \<Rightarrow> 'k list \<Rightarrow> nat list" where
  "cumcount seen [] = []"
| "cumcount seen (k # ks) = count_list seen k # cumcount (seen @ [k]) ks"

definition attempt_key :: "erow \<Rightarrow> string \<times> string" where
  "attempt_key r = (study_number r, course_number r)"

definition attempt_counter :: "erow list \<Rightarrow> arow list" where
  "attempt_counter df =
     map (\<lambda>(r, n). erow.extend r (arow.fields (n + 1)))
       (zip df (cumcount [] (map attempt_key df)))"

subsection \<open>Sorter (line 116)\<close>

text \<open>
  \<^verbatim>\<open>sort_values\<close> on several columns sorts by the tuple of their values and keeps rows
  with equal tuples in their order; \<open>sort_key\<close> is such a sort.
\<close>

definition sort_values_key :: "arow \<Rightarrow> string \<times> string \<times> string" where
  "sort_values_key r = (study_number r, course_number r, semester_end r)"

definition sorter :: "arow list \<Rightarrow> arow list" where
  "sorter df = sort_key sort_values_key df"

subsection \<open>The script\<close>

text \<open>
  On a table that the filters have emptied, \<^verbatim>\<open>groupby(...).apply\<close> calls its function
  not once and returns the table without the column \<^verbatim>\<open>SEMESTER_END\<close>; line 116 then
  raises \<^verbatim>\<open>KeyError\<close>.
\<close>

definition prepare_data :: "frame \<Rightarrow> error + arow list" where
  "prepare_data df =
     and_then (cohort_filter df) (\<lambda>df.
     and_then (apply_normalize_text (institute_filter (minimum_activity_filter df))) (\<lambda>df.
     and_then (canonicalizer df) (\<lambda>df.
     and_then (convert_grading_dates df) (\<lambda>df.
     and_then (add_semester df) (\<lambda>df.
     and_then (groupby_apply_set_semester_grading_dates df) (\<lambda>df.
       if df = [] then Inl (KeyError SEMESTER_END)
       else Inr (sorter (attempt_counter df))))))))"

subsection \<open>Example tables\<close>

text \<open>
  A record of the target programme with student, course number, course text and grading
  date as given, and the same values in the other columns.
\<close>

definition example_record ::
  "string \<Rightarrow> string \<Rightarrow> string option \<Rightarrow> string \<Rightarrow> string option raw_row" where
  "example_record s c t d =
     \<lparr>study_number = s, course_number = c, course_text = t, grade = ''7'',
      grading_scale = ''7-trin'', ects = 5, exam_form = ''Skriftlig'', censor = ''Intern'',
      grading_date = d, education = ''Softwareteknologi, ing.prof.bach.''\<rparr>"

text \<open>The same after line 53, with the course text present.\<close>

definition example_row :: "string \<Rightarrow> string \<Rightarrow> string \<Rightarrow> string \<Rightarrow> string row" where
  "example_row s c t d =
     \<lparr>study_number = s, course_number = c, course_text = t, grade = ''7'',
      grading_scale = ''7-trin'', ects = 5, exam_form = ''Skriftlig'', censor = ''Intern'',
      grading_date = d\<rparr>"

text \<open>A row of the output: a row with its semester, semester end date and attempt number.\<close>

definition example_output_row :: "string row \<Rightarrow> string \<Rightarrow> string \<Rightarrow> nat \<Rightarrow> arow" where
  "example_output_row r s e n =
     erow.extend (srow.extend (row.extend r (srow.fields s)) (erow.fields e)) (arow.fields n)"

text \<open>
  One course text with 5 credits under two course numbers, \<^verbatim>\<open>02132\<close> three times and
  \<^verbatim>\<open>02132B\<close> once, and a second course with a single number.
\<close>

definition database_systems_table :: "string row list" where
  "database_systems_table =
     [example_row ''s1'' ''02132'' ''DATABASE SYSTEMS'' ''10/01/2023'',
      example_row ''s2'' ''02132B'' ''DATABASE SYSTEMS'' ''10/01/2023'',
      example_row ''s3'' ''02132'' ''DATABASE SYSTEMS'' ''10/01/2023'',
      example_row ''s4'' ''02132'' ''DATABASE SYSTEMS'' ''12/06/2023'',
      example_row ''s1'' ''02101'' ''ALGO'' ''12/06/2023'']"

text \<open>
  A student who took one course twice, the later attempt first in the file, and a second
  course.
\<close>

definition repeated_course_frame :: frame where
  "repeated_course_frame =
     With_Education
       [example_record ''s1'' ''02101'' (Some ''Algo'') ''15/11/2023'',
        example_record ''s1'' ''02101'' (Some ''Algo'') ''15/06/2023'',
        example_record ''s1'' ''02102'' (Some ''Logic'') ''16/06/2023'']"

text \<open>
  Two students with three records each. The first has the same course on the same day under
  two course numbers.
\<close>

definition merged_codes_frame :: frame where
  "merged_codes_frame =
     With_Education
       [example_record ''s1'' ''02132'' (Some ''Database systems'') ''15/11/2023'',
        example_record ''s1'' ''02132B'' (Some ''Database systems'') ''15/11/2023'',
        example_record ''s1'' ''02101'' (Some ''Algo'') ''16/06/2023'',
        example_record ''s2'' ''02132'' (Some ''Database systems'') ''15/11/2023'',
        example_record ''s2'' ''02101'' (Some ''Algo'') ''16/06/2023'',
        example_record ''s2'' ''02102'' (Some ''Logic'') ''16/06/2023'']"

text \<open>A student with three records, two of them equal in every column.\<close>

definition duplicate_rows_frame :: frame where
  "duplicate_rows_frame =
     With_Education
       [example_record ''s1'' ''02101'' (Some ''Algo'') ''15/11/2023'',
        example_record ''s1'' ''02101'' (Some ''Algo'') ''15/11/2023'',
        example_record ''s1'' ''02102'' (Some ''Logic'') ''16/06/2023'']"

section \<open>Properties\<close>

subsection \<open>Sequencing\<close>

lemma and_then_Inr [simp]: "and_then (Inr x) f = f x"
  by (simp add: and_then_def)

lemma and_then_Inl [simp]: "and_then (Inl e) f = Inl e"
  by (simp add: and_then_def)

lemma and_then_eq_Inr:
  "and_then r f = Inr y \<longleftrightarrow> (\<exists>x. r = Inr x \<and> f x = Inr y)"
  by (cases r) simp_all

lemma traverse_Inr_map:
  "(\<And>x. x \<in> set xs \<Longrightarrow> f x = Inr (g x)) \<Longrightarrow> traverse f xs = Inr (map g xs)"
  by (induction xs) auto

lemma traverse_Inr_nth:
  "traverse f xs = Inr ys \<Longrightarrow>
     length ys = length xs \<and> (\<forall>i<length xs. f (xs ! i) = Inr (ys ! i))"
proof (induction xs arbitrary: ys)
  case Nil
  then show ?case by simp
next
  case (Cons x xs)
  from Cons.prems obtain y ys' where
    fx: "f x = Inr y" and t: "traverse f xs = Inr ys'" and ys: "ys = y # ys'"
    by (auto split: sum.splits)
  from Cons.IH [OF t] have l: "length ys' = length xs"
    and n: "\<forall>i<length xs. f (xs ! i) = Inr (ys' ! i)"
    by auto
  show ?case
  proof (intro conjI allI impI)
    show "length ys = length (x # xs)" using l ys by simp
  next
    fix i assume "i < length (x # xs)"
    then show "f ((x # xs) ! i) = Inr (ys ! i)"
      using fx n ys by (cases i) auto
  qed
qed

subsection \<open>Cohort filter\<close>

text \<open>
  Claim C9, as stated, fails. The filter removes the programme column from its output, so
  applied to its own output line 24 raises \<^verbatim>\<open>KeyError\<close> instead of returning the table
  unchanged.
\<close>

theorem cohort_filter_reapplied_raises:
  "cohort_filter (With_Education [example_record ''s1'' ''02101'' (Some ''Algo'') ''15/11/2023''])
     = Inr [row.truncate (example_record ''s1'' ''02101'' (Some ''Algo'') ''15/11/2023'')]
   \<and> cohort_filter
       (Without_Education [row.truncate (example_record ''s1'' ''02101'' (Some ''Algo'') ''15/11/2023'')])
     = Inl (KeyError ''UDDANNELSE'')"
  by code_simp

text \<open>
  Claim C9, amended. The selection of the cohort filter is idempotent: run again on the
  selected rows, while they still have the programme column, the filter returns the same
  output. On its own output, which has lost that column, it raises \<^verbatim>\<open>KeyError\<close>.
\<close>

theorem cohort_filter_selection_idempotent:
  assumes "cohort_filter (With_Education rows) = Inr out"
  shows "cohort_filter
           (With_Education
              (filter (\<lambda>r. education r = ''Softwareteknologi, ing.prof.bach.'') rows)) = Inr out
       \<and> cohort_filter (Without_Education out) = Inl (KeyError EDUCATION)"
  using assms by (simp add: cohort_filter_def)

theorem cohort_filter_selection_idempotent_witness:
  "cohort_filter
     (With_Education
        [example_record ''s1'' ''02101'' (Some ''Algo'') ''15/11/2023'',
         (example_record ''s2'' ''02101'' (Some ''Algo'') ''15/11/2023'')\<lparr>education := ''Other''\<rparr>])
     = Inr [row.truncate (example_record ''s1'' ''02101'' (Some ''Algo'') ''15/11/2023'')]
   \<and> cohort_filter
       (With_Education
          (filter (\<lambda>r. education r = ''Softwareteknologi, ing.prof.bach.'')
             [example_record ''s1'' ''02101'' (Some ''Algo'') ''15/11/2023'',
              (example_record ''s2'' ''02101'' (Some ''Algo'') ''15/11/2023'')\<lparr>education := ''Other''\<rparr>]))
     = Inr [row.truncate (example_record ''s1'' ''02101'' (Some ''Algo'') ''15/11/2023'')]
   \<and> cohort_filter
       (Without_Education [row.truncate (example_record ''s1'' ''02101'' (Some ''Algo'') ''15/11/2023'')])
     = Inl (KeyError EDUCATION)"
proof -
  have h: "cohort_filter
     (With_Education
        [example_record ''s1'' ''02101'' (Some ''Algo'') ''15/11/2023'',
         (example_record ''s2'' ''02101'' (Some ''Algo'') ''15/11/2023'')\<lparr>education := ''Other''\<rparr>])
     = Inr [row.truncate (example_record ''s1'' ''02101'' (Some ''Algo'') ''15/11/2023'')]"
    by code_simp
  from cohort_filter_selection_idempotent [OF h] h show ?thesis
    by simp
qed

subsection \<open>Sorter\<close>

text \<open>
  Claim C8. The sorter returns the rows of the table in non-decreasing order of
  (student, course number, semester end date), and rows with equal keys stay in the order
  they had before: for every key, the rows carrying it are the same sequence before and
  after. No row is lost or added.
\<close>

theorem sorter_stable_sort:
  "sorted (map sort_values_key (sorter df))
   \<and> (\<forall>k. filter (\<lambda>r. sort_values_key r = k) (sorter df)
            = filter (\<lambda>r. sort_values_key r = k) df)
   \<and> mset (sorter df) = mset df"
  by (simp add: sorter_def sort_key_stable)

subsection \<open>Missing course text\<close>

text \<open>
  Claim C7. A missing course text does not match the institute marker, so it excludes no
  student. Yet the record then reaches line 53, where \<^verbatim>\<open>normalize_text\<close> raises on it:
  the run aborts, here on a student with three records, one without course text.
\<close>

theorem missing_course_text_raises:
  "str_contains_institut None = False
   \<and> institute_filter (minimum_activity_filter
        (map row.truncate
           [example_record ''s1'' ''02101'' (Some ''Algo'') ''15/11/2023'',
            example_record ''s1'' ''02102'' None ''15/11/2023'',
            example_record ''s1'' ''02103'' (Some ''Logic'') ''16/06/2023'']))
     = map row.truncate
         [example_record ''s1'' ''02101'' (Some ''Algo'') ''15/11/2023'',
          example_record ''s1'' ''02102'' None ''15/11/2023'',
          example_record ''s1'' ''02103'' (Some ''Logic'') ''16/06/2023'']
   \<and> prepare_data
       (With_Education
          [example_record ''s1'' ''02101'' (Some ''Algo'') ''15/11/2023'',
           example_record ''s1'' ''02102'' None ''15/11/2023'',
           example_record ''s1'' ''02103'' (Some ''Logic'') ''16/06/2023''])
     = Inl AttributeError"
  by code_simp

subsection \<open>Text normaliser\<close>

lemma strip_prefix: "\<exists>z. dropWhile is_space s = strip s @ z"
proof -
  let ?a = "dropWhile is_space s"
  have "rev (takeWhile is_space (rev ?a) @ dropWhile is_space (rev ?a)) = ?a"
    by (simp only: takeWhile_dropWhile_id rev_rev_ident)
  then have "strip s @ rev (takeWhile is_space (rev ?a)) = ?a"
    by (simp only: rev_append strip_def)
  then show ?thesis by metis
qed

lemma dropWhile_strip: "dropWhile is_space (strip s) = strip s"
proof (cases "strip s = []")
  case True
  then show ?thesis by simp
next
  case False
  obtain z where z: "dropWhile is_space s = strip s @ z" using strip_prefix by blast
  with False have ne: "dropWhile is_space s \<noteq> []" by simp
  from z False have "hd (strip s) = hd (dropWhile is_space s)" by simp
  with hd_dropWhile [OF ne] have "\<not> is_space (hd (strip s))" by simp
  then show ?thesis by (simp add: dropWhile_eq_self_iff)
qed

lemma strip_strip: "strip (strip s) = strip s"
proof -
  have "rev (strip s) = dropWhile is_space (rev (dropWhile is_space s))"
    by (simp add: strip_def)
  then have "dropWhile is_space (rev (strip s)) = rev (strip s)"
    by simp
  then show ?thesis
    unfolding strip_def [of "strip s"] dropWhile_strip by simp
qed

lemma set_strip: "set (strip s) \<subseteq> set s"
  unfolding strip_def by (auto dest!: set_dropWhileD)

lemma length_strip: "length (strip s) \<le> length s"
proof -
  have "length (strip s) \<le> length (dropWhile is_space s)"
    unfolding strip_def using length_dropWhile_le [of is_space "rev (dropWhile is_space s)"] by simp
  also have "\<dots> \<le> length s" by (rule length_dropWhile_le)
  finally show ?thesis .
qed

lemma unidecode_filter: "unidecode s = filter is_ascii s"
  unfolding unidecode_def by (induction s) auto

lemma upper_char_idem: "upper_char (upper_char c) = upper_char c"
  by (simp add: upper_char_def lowercase_letters_def uppercase_letters_def)

lemma upper_upper: "set s \<subseteq> upper_char ` A \<Longrightarrow> upper s = s"
  unfolding upper_def by (rule map_idI) (auto simp: upper_char_idem)

lemma set_normalize_text: "set (normalize_text x) \<subseteq> upper_char ` set x \<inter> Collect is_ascii"
proof -
  have "set (normalize_text x) \<subseteq> set (filter is_ascii (dropWhile is_digit (map upper_char x)))"
    unfolding normalize_text_def unidecode_filter re_sub_leading_digits_def upper_def
    by (rule set_strip)
  also have "\<dots> \<subseteq> upper_char ` set x \<inter> Collect is_ascii"
    by (auto dest!: set_dropWhileD)
  finally show ?thesis .
qed

lemma length_normalize_text: "length (normalize_text y) \<le> length (dropWhile is_digit (upper y))"
proof -
  have "length (normalize_text y) \<le> length (filter is_ascii (dropWhile is_digit (upper y)))"
    unfolding normalize_text_def unidecode_filter re_sub_leading_digits_def by (rule length_strip)
  also have "\<dots> \<le> length (dropWhile is_digit (upper y))" by simp
  finally show ?thesis .
qed

text \<open>
  Claim C2, as stated, fails. Line 47 removes digits only at the very start of the text and
  line 50 strips whitespace afterwards: a text that starts with whitespace keeps its
  course number in the first pass and loses it in the second.
\<close>

theorem normalize_text_not_idempotent:
  "normalize_text (normalize_text '' 02132 Database'') \<noteq> normalize_text '' 02132 Database''"
  by code_simp

text \<open>
  Claim C2, amended. For an ASCII text \<open>x\<close>, normalising twice gives the same as normalising
  once exactly when the normalised text does not begin with a digit.
\<close>

theorem normalize_text_idempotent_iff:
  assumes "\<forall>c\<in>set x. is_ascii c"
  shows "normalize_text (normalize_text x) = normalize_text x
         \<longleftrightarrow> \<not> (\<exists>c cs. normalize_text x = c # cs \<and> is_digit c)"
proof -
  let ?y = "normalize_text x"
  have up: "upper ?y = ?y"
    using set_normalize_text [of x] by (intro upper_upper [of _ "set x"]) blast
  have asc: "filter is_ascii ?y = ?y"
    using set_normalize_text [of x] by (intro filter_True) blast
  have st: "strip ?y = ?y"
    unfolding normalize_text_def by (rule strip_strip)
  show ?thesis
  proof (cases "\<exists>c cs. ?y = c # cs \<and> is_digit c")
    case True
    then obtain c cs where y: "?y = c # cs" and d: "is_digit c" by blast
    have "length (normalize_text ?y) \<le> length (dropWhile is_digit (upper ?y))"
      by (rule length_normalize_text)
    also have "\<dots> = length (dropWhile is_digit cs)" using up y d by simp
    also have "\<dots> \<le> length cs" by (rule length_dropWhile_le)
    also have "\<dots> < length ?y" using y by simp
    finally have "normalize_text ?y \<noteq> ?y" by auto
    with True show ?thesis by blast
  next
    case False
    then have "dropWhile is_digit ?y = ?y"
      by (cases ?y) auto
    then have "normalize_text ?y = ?y"
      unfolding normalize_text_def [of ?y] up re_sub_leading_digits_def unidecode_filter
      using asc st by simp
    with False show ?thesis by blast
  qed
qed

theorem normalize_text_idempotent_iff_witness:
  "normalize_text ''02132 Database systems'' = ''DATABASE SYSTEMS''
   \<and> normalize_text (normalize_text ''02132 Database systems'')
       = normalize_text ''02132 Database systems''"
proof -
  have a: "\<forall>c\<in>set ''02132 Database systems''. is_ascii c" by code_simp
  have b: "normalize_text ''02132 Database systems'' = ''DATABASE SYSTEMS''" by code_simp
  have c: "\<not> is_digit CHR ''D''" by code_simp
  from b c have "\<not> (\<exists>c cs. normalize_text ''02132 Database systems'' = c # cs \<and> is_digit c)"
    by simp
  with normalize_text_idempotent_iff [OF a] b show ?thesis by blast
qed

subsection \<open>Dates\<close>

lemma digit_char_cases:
  "digit_char n \<in> set ''0123456789''"
proof -
  have "n mod 10 < 10" by simp
  then have "n mod 10 \<in> {0, 1, 2, 3, 4, 5, 6, 7, 8, 9}" by (simp, arith)
  then show ?thesis
    unfolding digit_char_def by (elim insertE emptyE) simp_all
qed

lemma is_digit_digit_char [simp]: "is_digit (digit_char n)"
  using digit_char_cases by (simp add: is_digit_def)

lemma digit_value_digit_char [simp]: "digit_value (digit_char n) = n mod 10"
proof -
  have "n mod 10 < 10" by simp
  then have "n mod 10 \<in> {0, 1, 2, 3, 4, 5, 6, 7, 8, 9}" by (simp, arith)
  then show ?thesis
    unfolding digit_char_def digit_value_def by (elim insertE emptyE) simp_all
qed

lemma digit_char_eq_zero: "digit_char n = CHR ''0'' \<longleftrightarrow> n mod 10 = 0"
proof -
  have "n mod 10 < 10" by simp
  then have "n mod 10 \<in> {0, 1, 2, 3, 4, 5, 6, 7, 8, 9}" by (simp, arith)
  then show ?thesis
    unfolding digit_char_def by (elim insertE emptyE) simp_all
qed

lemma digit_char_small: "n < 10 \<Longrightarrow> digit_char n = ''0123456789'' ! n"
  by (simp add: digit_char_def)

lemma digit_char_not_sep [simp]: "digit_char n \<noteq> CHR ''-''" "digit_char n \<noteq> CHR '' ''" "digit_char n \<noteq> CHR ''S''"
  using digit_char_cases [of n] by auto

lemma decimal_digits:
  assumes "y < 10000"
  shows "1000 * (y div 1000 mod 10) + 100 * (y div 100 mod 10) + 10 * (y div 10 mod 10) + y mod 10
         = (y::nat)"
proof -
  define q1 where "q1 = y div 10"
  define q2 where "q2 = q1 div 10"
  define q3 where "q3 = q2 div 10"
  have d2: "y div 100 = q2" by (simp add: q1_def q2_def div_mult2_eq)
  have d3: "y div 1000 = q3" by (simp add: q1_def q2_def q3_def div_mult2_eq)
  from assms d3 have "q3 < 10" by simp
  then have m3: "q3 mod 10 = q3" by simp
  have e1: "y = 10 * q1 + y mod 10" by (simp add: q1_def)
  have e2: "q1 = 10 * q2 + q1 mod 10" by (simp add: q2_def)
  have e3: "q2 = 10 * q3 + q2 mod 10" by (simp add: q3_def)
  have "1000 * q3 + 100 * (q2 mod 10) + 10 * (q1 mod 10) + y mod 10 = y"
    using e1 e2 e3 by linarith
  then show ?thesis
    by (simp only: d2 d3 m3 flip: q1_def)
qed

lemma directive_Y_strftime:
  "y < 10000 \<Longrightarrow>
   directive_Y [digit_char (y div 1000), digit_char (y div 100), digit_char (y div 10), digit_char y]
     = Some y"
  using decimal_digits [of y] by (simp add: directive_Y_def)

lemma directive_m_strftime:
  assumes "1 \<le> m" "m \<le> 12"
  shows "directive_m [digit_char (m div 10), digit_char m] = Some m"
proof -
  from assms have "m \<in> {1, 2, 3, 4, 5, 6, 7, 8, 9, 10, 11, 12}" by (simp, arith)
  then show ?thesis
    unfolding directive_m_def digit_char_def is_digit_def digit_value_def
    by (elim insertE emptyE) simp_all
qed

lemma directive_d_strftime:
  assumes "1 \<le> d" "d \<le> 31"
  shows "directive_d [digit_char (d div 10), digit_char d] = Some d"
proof -
  from assms have "d \<in> {1, 2, 3, 4, 5, 6, 7, 8, 9, 10, 11, 12, 13, 14, 15, 16, 17, 18, 19, 20,
      21, 22, 23, 24, 25, 26, 27, 28, 29, 30, 31}" by (simp, arith)
  then show ?thesis
    unfolding directive_d_def digit_char_def is_digit_def digit_value_def
    by (elim insertE emptyE) simp_all
qed

lemma split_on_no_sep: "sep \<notin> set cs \<Longrightarrow> split_on sep cs = [cs]"
  by (induction cs) auto

lemma split_on_append: "sep \<notin> set cs \<Longrightarrow> split_on sep (cs @ sep # rest) = cs # split_on sep rest"
  by (induction cs) auto

lemma split_on_strftime:
  "split_on CHR ''-'' (strftime_ymd d) =
     [[digit_char (year d div 1000), digit_char (year d div 100), digit_char (year d div 10),
       digit_char (year d)],
      [digit_char (month d div 10), digit_char (month d)],
      [digit_char (day d div 10), digit_char (day d)]]"
  unfolding strftime_ymd_def by simp

lemma digit_value_bounds:
  assumes "is_digit c"
  shows "digit_value c \<le> 9" and "c \<noteq> CHR ''0'' \<Longrightarrow> 1 \<le> digit_value c"
  using assms unfolding is_digit_def digit_value_def by auto

lemma digit_value_012 [simp]:
  "digit_value CHR ''0'' = 0" "digit_value CHR ''1'' = 1" "digit_value CHR ''2'' = 2"
  by (simp_all add: digit_value_def)

lemma directive_m_range:
  assumes "directive_m f = Some m"
  shows "1 \<le> m \<and> m \<le> 12"
proof (cases f)
  case Nil
  with assms show ?thesis by (simp add: directive_m_def)
next
  case f1: (Cons a f1)
  show ?thesis
  proof (cases f1)
    case Nil
    with f1 assms digit_value_bounds [of a] show ?thesis
      by (auto simp: directive_m_def split: if_splits)
  next
    case f2: (Cons b f2)
    show ?thesis
    proof (cases f2)
      case Nil
      with f1 f2 assms digit_value_bounds [of b] show ?thesis
        by (auto simp: directive_m_def split: if_splits)
    next
      case (Cons c f3)
      with f1 f2 assms show ?thesis by (simp add: directive_m_def)
    qed
  qed
qed

lemma directive_d_range:
  assumes "directive_d f = Some d"
  shows "1 \<le> d"
proof (cases f)
  case Nil
  with assms show ?thesis by (simp add: directive_d_def)
next
  case f1: (Cons a f1)
  show ?thesis
  proof (cases f1)
    case Nil
    with f1 assms digit_value_bounds [of a] show ?thesis
      by (auto simp: directive_d_def split: if_splits)
  next
    case f2: (Cons b f2)
    show ?thesis
    proof (cases f2)
      case Nil
      with f1 f2 assms digit_value_bounds [of b] show ?thesis
        by (auto simp: directive_d_def split: if_splits)
    next
      case (Cons c f3)
      with f1 f2 assms show ?thesis by (simp add: directive_d_def)
    qed
  qed
qed

text \<open>What a timestamp is: a day of the calendar within the bounds.\<close>

lemma to_timestamp_Inr:
  assumes "to_timestamp (directive_Y fy) (directive_m fm) (directive_d fd) = Inr t"
  shows "1 \<le> month t \<and> month t \<le> 12 \<and> 1 \<le> day t \<and> day t \<le> 31 \<and> year t < 10000"
proof -
  from assms obtain y m d where
    y: "directive_Y fy = Some y" and m: "directive_m fm = Some m" and d: "directive_d fd = Some d"
    by (auto simp: to_timestamp_def split: option.splits)
  from assms y m d have t: "t = \<lparr>year = y, month = m, day = d\<rparr>"
    and le: "d \<le> days_in_month y m" and b: "in_bounds \<lparr>year = y, month = m, day = d\<rparr>"
    by (auto simp: to_timestamp_def split: if_splits)
  have "days_in_month y m \<le> 31" by (simp add: days_in_month_def)
  moreover from b have "y \<le> 2262" by (auto simp: in_bounds_def)
  ultimately show ?thesis
    using t le directive_m_range [OF m] directive_d_range [OF d] by simp
qed

lemma to_datetime_ymd_strftime:
  assumes "1 \<le> month t" "month t \<le> 12" "1 \<le> day t" "day t \<le> 31" "year t < 10000"
    and "day t \<le> days_in_month (year t) (month t)" "in_bounds t"
  shows "to_datetime_ymd (strftime_ymd t) = Inr \<lparr>year = year t, month = month t, day = day t\<rparr>"
  using assms
  by (simp add: to_datetime_ymd_def split_on_strftime directive_Y_strftime directive_m_strftime
      directive_d_strftime to_timestamp_def in_bounds_def)

lemma to_timestamp_roundtrip:
  assumes "to_timestamp (directive_Y fy) (directive_m fm) (directive_d fd) = Inr t"
  shows "to_datetime_ymd (strftime_ymd t) = Inr t"
proof -
  from assms obtain y m d where
    y: "directive_Y fy = Some y" and m: "directive_m fm = Some m" and d: "directive_d fd = Some d"
    by (auto simp: to_timestamp_def split: option.splits)
  from assms y m d have t: "t = \<lparr>year = y, month = m, day = d\<rparr>"
    and le: "d \<le> days_in_month y m" and b: "in_bounds \<lparr>year = y, month = m, day = d\<rparr>"
    by (auto simp: to_timestamp_def split: if_splits)
  from to_timestamp_Inr [OF assms] le b t
  have "to_datetime_ymd (strftime_ymd t) = Inr \<lparr>year = year t, month = month t, day = day t\<rparr>"
    by (intro to_datetime_ymd_strftime) simp_all
  with t show ?thesis by simp
qed

lemma to_datetime_dmy_roundtrip:
  assumes "to_datetime_dmy text = Inr t"
  shows "to_datetime_ymd (strftime_ymd t) = Inr t" and "1 \<le> month t \<and> month t \<le> 12"
proof -
  from assms obtain fd fm fy where
    "to_timestamp (directive_Y fy) (directive_m fm) (directive_d fd) = Inr t"
    by (auto simp: to_datetime_dmy_def split: list.splits)
  then show "to_datetime_ymd (strftime_ymd t) = Inr t" and "1 \<le> month t \<and> month t \<le> 12"
    using to_timestamp_roundtrip to_timestamp_Inr by blast+
qed

subsection \<open>Added columns\<close>

lemma row_extend_sel [simp]:
  "study_number (row.extend r (srow.fields s)) = study_number r"
  "course_number (row.extend r (srow.fields s)) = course_number r"
  "course_text (row.extend r (srow.fields s)) = course_text r"
  "grading_date (row.extend r (srow.fields s)) = grading_date r"
  "semester (row.extend r (srow.fields s)) = s"
  "row.truncate (row.extend r (srow.fields s)) = r"
  by (simp_all add: row.defs srow.defs)

lemma srow_extend_sel [simp]:
  "study_number (srow.extend r (erow.fields e)) = study_number r"
  "course_number (srow.extend r (erow.fields e)) = course_number r"
  "course_text (srow.extend r (erow.fields e)) = course_text r"
  "grading_date (srow.extend r (erow.fields e)) = grading_date r"
  "semester (srow.extend r (erow.fields e)) = semester r"
  "semester_end (srow.extend r (erow.fields e)) = e"
  "srow.truncate (srow.extend r (erow.fields e)) = r"
  by (simp_all add: srow.defs erow.defs)

lemma erow_extend_sel [simp]:
  "study_number (erow.extend r (arow.fields n)) = study_number r"
  "course_number (erow.extend r (arow.fields n)) = course_number r"
  "course_text (erow.extend r (arow.fields n)) = course_text r"
  "grading_date (erow.extend r (arow.fields n)) = grading_date r"
  "semester (erow.extend r (arow.fields n)) = semester r"
  "semester_end (erow.extend r (arow.fields n)) = semester_end r"
  "attempt (erow.extend r (arow.fields n)) = n"
  "erow.truncate (erow.extend r (arow.fields n)) = r"
  by (simp_all add: erow.defs arow.defs)

subsection \<open>Semester labeller\<close>

lemma get_semester_strftime:
  assumes "to_datetime_ymd (strftime_ymd d) = Inr d"
  shows "get_semester (strftime_ymd d)
         = Inr ((if month d \<le> 4 \<or> 10 \<le> month d then ''Fall'' else ''Spring'')
                @ '' '' @ string_of_nat (year d))"
  using assms by (simp add: get_semester_def)

lemma convert_grading_dates_nth:
  assumes "convert_grading_dates df = Inr df1" and "i < length df"
  shows "\<exists>d. to_datetime_dmy (grading_date (df ! i)) = Inr d
             \<and> df1 ! i = (df ! i)\<lparr>grading_date := strftime_ymd d\<rparr>"
proof -
  from traverse_Inr_nth [OF assms(1) [unfolded convert_grading_dates_def]] assms(2)
  have "(case to_datetime_dmy (grading_date (df ! i)) of
           Inl e \<Rightarrow> Inl e
         | Inr d \<Rightarrow> Inr ((df ! i)\<lparr>grading_date := strftime_ymd d\<rparr>)) = Inr (df1 ! i)"
    by simp
  then show ?thesis by (auto split: sum.splits)
qed

lemma convert_grading_dates_length:
  "convert_grading_dates df = Inr df1 \<Longrightarrow> length df1 = length df"
  unfolding convert_grading_dates_def by (drule traverse_Inr_nth) simp

text \<open>
  Claim C6. Once line 80 has parsed every grading date, line 91 labels every record, and
  for each record, with \<open>d\<close> the date parsed from its day/month/year text: the grading
  date becomes the ISO text of \<open>d\<close>; the label is \<^verbatim>\<open>Fall\<close> and the year of \<open>d\<close> when
  the month of \<open>d\<close> is 10, 11, 12, 1, 2, 3 or 4; and \<^verbatim>\<open>Spring\<close> and the year of
  \<open>d\<close> when the month is 5 to 9. The witness is the record graded on 15/01/2023:
  ISO date 2023-01-15, label \<^verbatim>\<open>Fall 2023\<close>.
\<close>

theorem semester_labeller:
  fixes df :: "string row list"
  assumes "convert_grading_dates df = Inr df1"
  shows "\<exists>df2. add_semester df1 = Inr df2 \<and> length df2 = length df \<and>
           (\<forall>i<length df. \<exists>d.
              to_datetime_dmy (grading_date (df ! i)) = Inr d \<and>
              grading_date (df2 ! i) = strftime_ymd d \<and>
              (month d \<in> {10, 11, 12} \<union> {1, 2, 3, 4} \<or> month d \<in> {5, 6, 7, 8, 9}) \<and>
              semester (df2 ! i) =
                (if month d \<in> {10, 11, 12} \<union> {1, 2, 3, 4} then ''Fall'' else ''Spring'')
                @ '' '' @ string_of_nat (year d))"
proof -
  let ?label = "\<lambda>d. (if month d \<le> 4 \<or> 10 \<le> month d then ''Fall'' else ''Spring'')
                @ '' '' @ string_of_nat (year d)"
  let ?g = "\<lambda>r. row.extend r
     (srow.fields (case get_semester (grading_date r) of Inr s \<Rightarrow> s | Inl e \<Rightarrow> []))"
  have len: "length df1 = length df" using assms by (rule convert_grading_dates_length)
  have row: "\<exists>d. to_datetime_dmy (grading_date (df ! i)) = Inr d
          \<and> grading_date (df1 ! i) = strftime_ymd d
          \<and> get_semester (grading_date (df1 ! i)) = Inr (?label d)
          \<and> 1 \<le> month d \<and> month d \<le> 12" if "i < length df" for i
  proof -
    from convert_grading_dates_nth [OF assms that] obtain d where
      d: "to_datetime_dmy (grading_date (df ! i)) = Inr d"
      and r: "df1 ! i = (df ! i)\<lparr>grading_date := strftime_ymd d\<rparr>" by blast
    from to_datetime_dmy_roundtrip [OF d] get_semester_strftime [of d] r d
    show ?thesis by auto
  qed
  have "traverse (\<lambda>r. case get_semester (grading_date r) of
                      Inl e \<Rightarrow> Inl e
                    | Inr s \<Rightarrow> Inr (row.extend r (srow.fields s))) df1 = Inr (map ?g df1)"
  proof (rule traverse_Inr_map)
    fix x assume "x \<in> set df1"
    then obtain i where "i < length df1" "x = df1 ! i" by (auto simp: in_set_conv_nth)
    with row [of i] len show "(case get_semester (grading_date x) of
                      Inl e \<Rightarrow> Inl e
                    | Inr s \<Rightarrow> Inr (row.extend x (srow.fields s))) = Inr (?g x)"
      by auto
  qed
  then have a: "add_semester df1 = Inr (map ?g df1)" by (simp add: add_semester_def)
  have "\<exists>d. to_datetime_dmy (grading_date (df ! i)) = Inr d \<and>
              grading_date (map ?g df1 ! i) = strftime_ymd d \<and>
              (month d \<in> {10, 11, 12} \<union> {1, 2, 3, 4} \<or> month d \<in> {5, 6, 7, 8, 9}) \<and>
              semester (map ?g df1 ! i) =
                (if month d \<in> {10, 11, 12} \<union> {1, 2, 3, 4} then ''Fall'' else ''Spring'')
                @ '' '' @ string_of_nat (year d)" if "i < length df" for i
  proof -
    from row [OF that] obtain d where
      d: "to_datetime_dmy (grading_date (df ! i)) = Inr d"
      and g: "grading_date (df1 ! i) = strftime_ymd d"
      and s: "get_semester (grading_date (df1 ! i)) = Inr (?label d)"
      and m: "1 \<le> month d" "month d \<le> 12" by blast
    from m have cases: "month d \<in> {10, 11, 12} \<union> {1, 2, 3, 4} \<or> month d \<in> {5, 6, 7, 8, 9}"
      by (simp, arith)
    have eq: "(month d \<le> 4 \<or> 10 \<le> month d) = (month d \<in> {10, 11, 12} \<union> {1, 2, 3, 4})"
      using m by (simp, arith)
    show ?thesis
      using d g s cases that len by (intro exI [of _ d]) (simp add: eq)
  qed
  with a len show ?thesis by auto
qed

theorem semester_labeller_witness:
  "convert_grading_dates [example_row ''s1'' ''02101'' ''ALGO'' ''15/01/2023'']
     = Inr [example_row ''s1'' ''02101'' ''ALGO'' ''2023-01-15'']
   \<and> add_semester [example_row ''s1'' ''02101'' ''ALGO'' ''2023-01-15'']
     = Inr [row.extend (example_row ''s1'' ''02101'' ''ALGO'' ''2023-01-15'')
              (srow.fields ''Fall 2023'')]
   \<and> (\<exists>df2. add_semester [example_row ''s1'' ''02101'' ''ALGO'' ''2023-01-15''] = Inr df2 \<and>
        length df2 = length [example_row ''s1'' ''02101'' ''ALGO'' ''15/01/2023''] \<and>
        (\<forall>i<length [example_row ''s1'' ''02101'' ''ALGO'' ''15/01/2023'']. \<exists>d.
           to_datetime_dmy (grading_date ([example_row ''s1'' ''02101'' ''ALGO'' ''15/01/2023''] ! i))
             = Inr d \<and>
           grading_date (df2 ! i) = strftime_ymd d \<and>
           (month d \<in> {10, 11, 12} \<union> {1, 2, 3, 4} \<or> month d \<in> {5, 6, 7, 8, 9}) \<and>
           semester (df2 ! i) =
             (if month d \<in> {10, 11, 12} \<union> {1, 2, 3, 4} then ''Fall'' else ''Spring'')
             @ '' '' @ string_of_nat (year d)))"
proof -
  have h: "convert_grading_dates [example_row ''s1'' ''02101'' ''ALGO'' ''15/01/2023'']
     = Inr [example_row ''s1'' ''02101'' ''ALGO'' ''2023-01-15'']"
    by code_simp
  have a: "add_semester [example_row ''s1'' ''02101'' ''ALGO'' ''2023-01-15'']
     = Inr [row.extend (example_row ''s1'' ''02101'' ''ALGO'' ''2023-01-15'')
              (srow.fields ''Fall 2023'')]"
    by code_simp
  from h a semester_labeller [OF h] show ?thesis by blast
qed

subsection \<open>Semester date aligner\<close>

lemma set_string_of_nat: "set (string_of_nat n) \<subseteq> set ''0123456789''"
proof (induction n rule: string_of_nat.induct)
  case (1 n)
  show ?case
  proof (cases "n < 10")
    case True
    then show ?thesis
      using digit_char_cases [of n] by (subst string_of_nat.simps) simp
  next
    case False
    with 1 digit_char_cases [of n] show ?thesis
      by (subst string_of_nat.simps) simp
  qed
qed

lemma foldl_string_of_nat:
  "foldl (\<lambda>a c. 10 * a + digit_value c) 0 (string_of_nat n) = n"
proof (induction n rule: string_of_nat.induct)
  case (1 n)
  show ?case
  proof (cases "n < 10")
    case True
    then show ?thesis by (subst string_of_nat.simps) simp
  next
    case False
    with 1 show ?thesis by (subst string_of_nat.simps) simp
  qed
qed

lemma string_of_nat_inj: "string_of_nat m = string_of_nat n \<Longrightarrow> m = n"
  by (metis foldl_string_of_nat)

lemma str_in_hd: "str_in (c # p) s \<Longrightarrow> c \<in> set s"
  by (induction s) (auto simp: startswith_def)

lemma str_in_Spring_label:
  "str_in ''Spring'' ((if fall then ''Fall'' else ''Spring'') @ '' '' @ string_of_nat y) \<longleftrightarrow> \<not> fall"
proof (cases fall)
  case True
  have "CHR ''S'' \<notin> set (''Fall '' @ string_of_nat y)"
    using set_string_of_nat [of y] by auto
  with str_in_hd [of "CHR ''S''" "''pring''" "''Fall '' @ string_of_nat y"] True
  show ?thesis by auto
next
  case False
  then show ?thesis by (simp add: startswith_def)
qed

lemma label_inj:
  assumes "(if f1 then ''Fall'' else ''Spring'') @ '' '' @ string_of_nat y1
         = (if f2 then ''Fall'' else ''Spring'') @ '' '' @ string_of_nat y2"
  shows "y1 = y2"
proof -
  from assms have "f1 = f2" by (auto split: if_splits)
  with assms have "string_of_nat y1 = string_of_nat y2" by (auto split: if_splits)
  then show ?thesis by (rule string_of_nat_inj)
qed

lemma add_semester_rows:
  assumes "add_semester df1 = Inr df2" and "r \<in> set df2"
  shows "\<exists>d. to_datetime_ymd (grading_date r) = Inr d
           \<and> semester r = (if month d \<le> 4 \<or> 10 \<le> month d then ''Fall'' else ''Spring'')
                            @ '' '' @ string_of_nat (year d)"
proof -
  from assms(2) obtain i where i: "i < length df2" and r: "r = df2 ! i"
    by (auto simp: in_set_conv_nth)
  from traverse_Inr_nth [OF assms(1) [unfolded add_semester_def]] i
  have "(case get_semester (grading_date (df1 ! i)) of
           Inl e \<Rightarrow> Inl e
         | Inr s \<Rightarrow> Inr (row.extend (df1 ! i) (srow.fields s))) = Inr (df2 ! i)"
    by simp
  then obtain s where s: "get_semester (grading_date (df1 ! i)) = Inr s"
    and e: "df2 ! i = row.extend (df1 ! i) (srow.fields s)"
    by (auto split: sum.splits)
  from s obtain d where "to_datetime_ymd (grading_date (df1 ! i)) = Inr d"
    and "s = (if month d \<le> 4 \<or> 10 \<le> month d then ''Fall'' else ''Spring'')
                            @ '' '' @ string_of_nat (year d)"
    by (auto simp: get_semester_def split: sum.splits)
  with e r show ?thesis by auto
qed

lemma mset_concat_filter:
  "distinct ks \<Longrightarrow>
   mset (concat (map (\<lambda>k. filter (\<lambda>r. key r = k) xs) ks)) = mset (filter (\<lambda>r. key r \<in> set ks) xs)"
proof (induction ks)
  case Nil
  then show ?case by simp
next
  case (Cons k ks)
  then have k: "k \<notin> set ks" and d: "distinct ks" by simp_all
  have "mset (filter (\<lambda>r. key r = k) xs) + mset (filter (\<lambda>r. key r \<in> set ks) xs)
        = mset (filter (\<lambda>r. key r \<in> set (k # ks)) xs)"
    using k by (induction xs) auto
  with Cons.IH [OF d] show ?case by simp
qed

lemma mset_groups:
  "mset (concat (map (\<lambda>k. filter (\<lambda>r. key r = k) xs) (sort (remdups (map key xs))))) = mset xs"
proof -
  have "filter (\<lambda>r. key r \<in> set (sort (remdups (map key xs)))) xs = xs"
    by (rule filter_True) simp
  with mset_concat_filter [of "sort (remdups (map key xs))" key xs] show ?thesis by simp
qed

lemma set_groups:
  "set (concat (map (\<lambda>k. filter (\<lambda>r. key r = k) xs) (sort (remdups (map key xs))))) = set xs"
  using mset_groups [of key xs] by (metis set_mset_mset)

lemma concat_map_map:
  "concat (map (\<lambda>k. map f (g k)) ks) = map f (concat (map g ks))"
  by (induction ks) simp_all

lemma set_semester_grading_dates_group:
  assumes rows: "\<And>r. r \<in> set g \<Longrightarrow> \<exists>d. to_datetime_ymd (grading_date r) = Inr d
           \<and> semester r = (if month d \<le> 4 \<or> 10 \<le> month d then ''Fall'' else ''Spring'')
                            @ '' '' @ string_of_nat (year d)"
    and same: "\<And>r r'. r \<in> set g \<Longrightarrow> r' \<in> set g \<Longrightarrow> semester r = semester r'"
    and ne: "g \<noteq> []"
  shows "set_semester_grading_dates g =
           Inr (map (\<lambda>r. srow.extend r (erow.fields (strftime_ymd
                      (new_date (semester r) (year (projr (to_datetime_ymd (grading_date r))))))))
                  g)"
proof -
  let ?dt = "\<lambda>r. projr (to_datetime_ymd (grading_date r))"
  from ne obtain first rest where g: "g = first # rest" by (cases g) auto
  have dt: "to_datetime_ymd (grading_date r) = Inr (?dt r)" if "r \<in> set g" for r
    using rows [OF that] by auto
  then have t: "traverse (\<lambda>r. to_datetime_ymd (grading_date r)) g = Inr (map ?dt g)"
    by (intro traverse_Inr_map) simp
  have yr: "year (?dt r) = year (?dt first)" if "r \<in> set g" for r
  proof -
    from rows [OF that] obtain d where d: "to_datetime_ymd (grading_date r) = Inr d"
      and l: "semester r = (if month d \<le> 4 \<or> 10 \<le> month d then ''Fall'' else ''Spring'')
                            @ '' '' @ string_of_nat (year d)" by blast
    have "first \<in> set g" using g by simp
    from rows [OF this] obtain d' where d': "to_datetime_ymd (grading_date first) = Inr d'"
      and l': "semester first = (if month d' \<le> 4 \<or> 10 \<le> month d' then ''Fall'' else ''Spring'')
                            @ '' '' @ string_of_nat (year d')" by blast
    from same [OF that \<open>first \<in> set g\<close>] l l' have "year d = year d'"
      by (intro label_inj [of "month d \<le> 4 \<or> 10 \<le> month d" _ "month d' \<le> 4 \<or> 10 \<le> month d'"]) simp
    with d d' show ?thesis by simp
  qed
  have "map (\<lambda>r. srow.extend r (erow.fields (strftime_ymd (new_date (semester first) (year (?dt first)))))) g
      = map (\<lambda>r. srow.extend r (erow.fields (strftime_ymd (new_date (semester r) (year (?dt r)))))) g"
  proof (rule map_cong [OF refl])
    fix r assume r: "r \<in> set g"
    have "first \<in> set g" using g by simp
    from same [OF r this] yr [OF r]
    show "srow.extend r (erow.fields (strftime_ymd (new_date (semester first) (year (?dt first)))))
        = srow.extend r (erow.fields (strftime_ymd (new_date (semester r) (year (?dt r)))))"
      by simp
  qed
  with t g show ?thesis
    by (simp add: set_semester_grading_dates_def)
qed

text \<open>What the aligner returns on a labelled table.\<close>

lemma groupby_apply_Inr:
  assumes "add_semester df1 = Inr df2"
  shows "groupby_apply_set_semester_grading_dates df2 =
     Inr (map (\<lambda>r. srow.extend r (erow.fields (strftime_ymd
                 (new_date (semester r) (year (projr (to_datetime_ymd (grading_date r))))))))
            (concat (map (\<lambda>k. filter (\<lambda>r. semester_key r = k) df2)
                       (sort (remdups (map semester_key df2))))))"
proof -
  let ?dt = "\<lambda>r. projr (to_datetime_ymd (grading_date r))"
  let ?ext = "\<lambda>r. srow.extend r (erow.fields (strftime_ymd (new_date (semester r) (year (?dt r)))))"
  let ?keys = "sort (remdups (map semester_key df2))"
  let ?grp = "\<lambda>k. filter (\<lambda>r. semester_key r = k) df2"
  note rows = add_semester_rows [OF assms]
  have "traverse (\<lambda>k. set_semester_grading_dates (?grp k)) ?keys = Inr (map (\<lambda>k. map ?ext (?grp k)) ?keys)"
  proof (rule traverse_Inr_map)
    fix k assume "k \<in> set ?keys"
    then obtain r0 where "r0 \<in> set df2" "semester_key r0 = k" by auto
    then have ne: "?grp k \<noteq> []" by (auto simp: filter_empty_conv)
    show "set_semester_grading_dates (?grp k) = Inr (map ?ext (?grp k))"
    proof (rule set_semester_grading_dates_group [OF _ _ ne])
      fix r assume "r \<in> set (?grp k)"
      then show "\<exists>d. to_datetime_ymd (grading_date r) = Inr d
           \<and> semester r = (if month d \<le> 4 \<or> 10 \<le> month d then ''Fall'' else ''Spring'')
                            @ '' '' @ string_of_nat (year d)"
        using rows by simp
    next
      fix r r' assume "r \<in> set (?grp k)" "r' \<in> set (?grp k)"
      then show "semester r = semester r'" by (auto simp: semester_key_def)
    qed
  qed
  then show ?thesis
    by (simp add: groupby_apply_set_semester_grading_dates_def concat_map_map)
qed

lemma groupby_apply_mset:
  assumes "add_semester df1 = Inr df2" and "groupby_apply_set_semester_grading_dates df2 = Inr df3"
  shows "mset (map srow.truncate df3) = mset df2"
proof -
  from groupby_apply_Inr [OF assms(1)] assms(2)
  have "map srow.truncate df3 = concat (map (\<lambda>k. filter (\<lambda>r. semester_key r = k) df2)
                       (sort (remdups (map semester_key df2))))"
    by (auto simp: comp_def)
  then show ?thesis by (simp only: mset_groups)
qed

text \<open>
  Claim C5. On a labelled table the aligner returns the same rows, grouped, each with a
  semester end date: the first of June of the year of its grading date if its label
  contains \<^verbatim>\<open>Spring\<close>, else the first of December of that year. Two rows of the same
  student and semester label get the same semester end date.
\<close>

theorem semester_end_aligned:
  assumes "add_semester df1 = Inr df2"
  shows "\<exists>df3. groupby_apply_set_semester_grading_dates df2 = Inr df3
     \<and> mset (map srow.truncate df3) = mset df2
     \<and> (\<forall>r\<in>set df3. \<exists>d. to_datetime_ymd (grading_date r) = Inr d
            \<and> semester_end r = strftime_ymd
                 \<lparr>year = year d, month = (if str_in ''Spring'' (semester r) then 6 else 12), day = 1\<rparr>)
     \<and> (\<forall>r\<in>set df3. \<forall>r'\<in>set df3.
            study_number r = study_number r' \<and> semester r = semester r'
            \<longrightarrow> semester_end r = semester_end r')"
proof -
  let ?dt = "\<lambda>r. projr (to_datetime_ymd (grading_date r))"
  let ?ext = "\<lambda>r. srow.extend r (erow.fields (strftime_ymd (new_date (semester r) (year (?dt r)))))"
  let ?keys = "sort (remdups (map semester_key df2))"
  let ?grp = "\<lambda>k. filter (\<lambda>r. semester_key r = k) df2"
  let ?df3 = "map ?ext (concat (map ?grp ?keys))"
  note rows = add_semester_rows [OF assms]
  have res: "groupby_apply_set_semester_grading_dates df2 = Inr ?df3"
    by (rule groupby_apply_Inr [OF assms])
  have ms: "mset (map srow.truncate ?df3) = mset df2"
    by (rule groupby_apply_mset [OF assms res])
  have mem: "\<exists>r0\<in>set df2. r = ?ext r0" if "r \<in> set ?df3" for r
    using that by auto
  have p1: "\<exists>d. to_datetime_ymd (grading_date r) = Inr d
            \<and> semester_end r = strftime_ymd
                 \<lparr>year = year d, month = (if str_in ''Spring'' (semester r) then 6 else 12), day = 1\<rparr>"
    if "r \<in> set ?df3" for r
  proof -
    from mem [OF that] obtain r0 where r0: "r0 \<in> set df2" and r: "r = ?ext r0" by blast
    from rows [OF r0] obtain d where d: "to_datetime_ymd (grading_date r0) = Inr d" by blast
    with r show ?thesis
      by (intro exI [of _ d]) (simp add: new_date_def)
  qed
  have p2: "semester_end r = semester_end r'"
    if "r \<in> set ?df3" "r' \<in> set ?df3" "study_number r = study_number r' \<and> semester r = semester r'"
    for r r'
  proof -
    from mem [OF that(1)] obtain r0 where r0: "r0 \<in> set df2" and r: "r = ?ext r0" by blast
    from mem [OF that(2)] obtain r1 where r1: "r1 \<in> set df2" and r': "r' = ?ext r1" by blast
    from that(3) r r' have s: "semester r0 = semester r1" by simp
    from rows [OF r0] obtain d where d: "to_datetime_ymd (grading_date r0) = Inr d"
      and l: "semester r0 = (if month d \<le> 4 \<or> 10 \<le> month d then ''Fall'' else ''Spring'')
                            @ '' '' @ string_of_nat (year d)" by blast
    from rows [OF r1] obtain d' where d': "to_datetime_ymd (grading_date r1) = Inr d'"
      and l': "semester r1 = (if month d' \<le> 4 \<or> 10 \<le> month d' then ''Fall'' else ''Spring'')
                            @ '' '' @ string_of_nat (year d')" by blast
    from s l l' have "year d = year d'"
      by (intro label_inj [of "month d \<le> 4 \<or> 10 \<le> month d" _ "month d' \<le> 4 \<or> 10 \<le> month d'"]) simp
    with d d' s r r' show ?thesis by simp
  qed
  from res ms p1 p2 show ?thesis by blast
qed

theorem semester_end_aligned_witness:
  "add_semester [example_row ''s1'' ''02101'' ''ALGO'' ''2023-01-15'',
                 example_row ''s1'' ''02102'' ''LOGIC'' ''2023-06-20'',
                 example_row ''s1'' ''02103'' ''DATA'' ''2023-11-03'']
     = Inr [row.extend (example_row ''s1'' ''02101'' ''ALGO'' ''2023-01-15'') (srow.fields ''Fall 2023''),
            row.extend (example_row ''s1'' ''02102'' ''LOGIC'' ''2023-06-20'') (srow.fields ''Spring 2023''),
            row.extend (example_row ''s1'' ''02103'' ''DATA'' ''2023-11-03'') (srow.fields ''Fall 2023'')]
   \<and> groupby_apply_set_semester_grading_dates
        [row.extend (example_row ''s1'' ''02101'' ''ALGO'' ''2023-01-15'') (srow.fields ''Fall 2023''),
         row.extend (example_row ''s1'' ''02102'' ''LOGIC'' ''2023-06-20'') (srow.fields ''Spring 2023''),
         row.extend (example_row ''s1'' ''02103'' ''DATA'' ''2023-11-03'') (srow.fields ''Fall 2023'')]
     = Inr [srow.extend (row.extend (example_row ''s1'' ''02101'' ''ALGO'' ''2023-01-15'')
                           (srow.fields ''Fall 2023'')) (erow.fields ''2023-12-01''),
            srow.extend (row.extend (example_row ''s1'' ''02103'' ''DATA'' ''2023-11-03'')
                           (srow.fields ''Fall 2023'')) (erow.fields ''2023-12-01''),
            srow.extend (row.extend (example_row ''s1'' ''02102'' ''LOGIC'' ''2023-06-20'')
                           (srow.fields ''Spring 2023'')) (erow.fields ''2023-06-01'')]
   \<and> (\<exists>df3. groupby_apply_set_semester_grading_dates
        [row.extend (example_row ''s1'' ''02101'' ''ALGO'' ''2023-01-15'') (srow.fields ''Fall 2023''),
         row.extend (example_row ''s1'' ''02102'' ''LOGIC'' ''2023-06-20'') (srow.fields ''Spring 2023''),
         row.extend (example_row ''s1'' ''02103'' ''DATA'' ''2023-11-03'') (srow.fields ''Fall 2023'')]
         = Inr df3
       \<and> (\<forall>r\<in>set df3. \<exists>d. to_datetime_ymd (grading_date r) = Inr d
            \<and> semester_end r = strftime_ymd
                 \<lparr>year = year d, month = (if str_in ''Spring'' (semester r) then 6 else 12), day = 1\<rparr>)
       \<and> (\<forall>r\<in>set df3. \<forall>r'\<in>set df3.
            study_number r = study_number r' \<and> semester r = semester r'
            \<longrightarrow> semester_end r = semester_end r'))"
proof -
  have h: "add_semester [example_row ''s1'' ''02101'' ''ALGO'' ''2023-01-15'',
                 example_row ''s1'' ''02102'' ''LOGIC'' ''2023-06-20'',
                 example_row ''s1'' ''02103'' ''DATA'' ''2023-11-03'']
     = Inr [row.extend (example_row ''s1'' ''02101'' ''ALGO'' ''2023-01-15'') (srow.fields ''Fall 2023''),
            row.extend (example_row ''s1'' ''02102'' ''LOGIC'' ''2023-06-20'') (srow.fields ''Spring 2023''),
            row.extend (example_row ''s1'' ''02103'' ''DATA'' ''2023-11-03'') (srow.fields ''Fall 2023'')]"
    by code_simp
  have g: "groupby_apply_set_semester_grading_dates
        [row.extend (example_row ''s1'' ''02101'' ''ALGO'' ''2023-01-15'') (srow.fields ''Fall 2023''),
         row.extend (example_row ''s1'' ''02102'' ''LOGIC'' ''2023-06-20'') (srow.fields ''Spring 2023''),
         row.extend (example_row ''s1'' ''02103'' ''DATA'' ''2023-11-03'') (srow.fields ''Fall 2023'')]
     = Inr [srow.extend (row.extend (example_row ''s1'' ''02101'' ''ALGO'' ''2023-01-15'')
                           (srow.fields ''Fall 2023'')) (erow.fields ''2023-12-01''),
            srow.extend (row.extend (example_row ''s1'' ''02103'' ''DATA'' ''2023-11-03'')
                           (srow.fields ''Fall 2023'')) (erow.fields ''2023-12-01''),
            srow.extend (row.extend (example_row ''s1'' ''02102'' ''LOGIC'' ''2023-06-20'')
                           (srow.fields ''Spring 2023'')) (erow.fields ''2023-06-01'')]"
    by code_simp
  from semester_end_aligned [OF h] have "\<exists>df3. groupby_apply_set_semester_grading_dates
        [row.extend (example_row ''s1'' ''02101'' ''ALGO'' ''2023-01-15'') (srow.fields ''Fall 2023''),
         row.extend (example_row ''s1'' ''02102'' ''LOGIC'' ''2023-06-20'') (srow.fields ''Spring 2023''),
         row.extend (example_row ''s1'' ''02103'' ''DATA'' ''2023-11-03'') (srow.fields ''Fall 2023'')]
         = Inr df3
       \<and> (\<forall>r\<in>set df3. \<exists>d. to_datetime_ymd (grading_date r) = Inr d
            \<and> semester_end r = strftime_ymd
                 \<lparr>year = year d, month = (if str_in ''Spring'' (semester r) then 6 else 12), day = 1\<rparr>)
       \<and> (\<forall>r\<in>set df3. \<forall>r'\<in>set df3.
            study_number r = study_number r' \<and> semester r = semester r'
            \<longrightarrow> semester_end r = semester_end r')"
    by blast
  with h g show ?thesis by blast
qed

subsection \<open>Course code canonicaliser\<close>

lemma set_unique [simp]: "set (unique xs) = set xs"
  by (simp add: unique_def)

lemma nunique_card: "nunique xs = card (set xs)"
  by (simp add: nunique_def unique_def length_remdups_card_conv)

lemma nunique_le_1: "nunique xs \<le> 1 \<Longrightarrow> a \<in> set xs \<Longrightarrow> b \<in> set xs \<Longrightarrow> a = b"
  unfolding nunique_card
  by (metis List.finite_set One_nat_def card_le_Suc0_iff_eq)

lemma fold_max_upper: "a \<le> fold max ns a \<and> (\<forall>n\<in>set ns. n \<le> fold max ns (a::nat))"
proof (induction ns arbitrary: a)
  case Nil
  then show ?case by simp
next
  case (Cons n ns)
  from Cons.IH [of "max n a"] show ?case by (auto simp: max_def split: if_splits)
qed

lemma fold_max_attained: "fold max ns (a::nat) \<in> insert a (set ns)"
proof (induction ns arbitrary: a)
  case Nil
  then show ?case by simp
next
  case (Cons n ns)
  from Cons.IH [of "max n a"] show ?case by (auto simp: max_def split: if_splits)
qed

lemma set_value_counts: "set (value_counts xs) = (\<lambda>v. (v, count_list xs v)) ` set xs"
  by (simp add: value_counts_def)

lemma count_list_pos: "x \<in> set xs \<Longrightarrow> 0 < count_list xs x"
  by (simp add: count_list_0_iff zero_less_iff_neq_zero)

lemma idxmax_value_counts:
  assumes "xs \<noteq> []"
  shows "\<exists>c. idxmax (value_counts xs) = Inr c \<and> c \<in> set xs
             \<and> (\<forall>x. count_list xs x \<le> count_list xs c)"
proof -
  let ?s = "value_counts xs"
  let ?m = "fold max (map snd ?s) 0"
  from assms obtain x0 where x0: "x0 \<in> set xs" by (cases xs) auto
  then have "(x0, count_list xs x0) \<in> set ?s" by (simp add: set_value_counts)
  then have "count_list xs x0 \<in> set (map snd ?s)" by force
  with fold_max_upper [of 0 "map snd ?s"] count_list_pos [OF x0] have "0 < ?m" by fastforce
  with fold_max_attained [of "map snd ?s" 0] have "?m \<in> set (map snd ?s)" by auto
  then obtain p where p: "p \<in> set ?s" "snd p = ?m" by auto
  then have "find (\<lambda>p. snd p = ?m) ?s \<noteq> None" unfolding find_None_iff by blast
  then obtain q where q: "find (\<lambda>p. snd p = ?m) ?s = Some q" by auto
  then have qs: "q \<in> set ?s" and qm: "snd q = ?m"
    by (auto simp: find_Some_iff)
  from qs obtain c where c: "c \<in> set xs" "q = (c, count_list xs c)"
    by (auto simp: set_value_counts)
  have "count_list xs x \<le> count_list xs c" for x
  proof (cases "x \<in> set xs")
    case True
    then have "count_list xs x \<in> set (map snd ?s)" by (force simp: set_value_counts)
    with fold_max_upper [of 0 "map snd ?s"] have "count_list xs x \<le> ?m" by blast
    with qm c show ?thesis by simp
  next
    case False
    then show ?thesis by (simp add: count_list_0_iff)
  qed
  with q c show ?thesis by (simp add: idxmax_def)
qed

lemma set_drop_duplicates [simp]: "set (drop_duplicates xs) = set xs"
  by (induction xs rule: drop_duplicates.induct) auto

lemma distinct_drop_duplicates [simp]: "distinct (drop_duplicates xs)"
  by (induction xs rule: drop_duplicates.induct) auto

lemma map_of_map_key:
  "map_of (map (\<lambda>k. (k, f k)) ks) k = (if k \<in> set ks then Some (f k) else None)"
  by (induction ks) auto

lemma get_group_nonempty: "r \<in> set df \<Longrightarrow> get_group df (group_key r) \<noteq> []"
  by (auto simp: get_group_def filter_empty_conv)

text \<open>The canonicaliser never raises, and what it returns.\<close>

lemma canonicalizer_Inr:
  "canonicalizer df =
     Inr (if \<exists>r\<in>set df. 1 < nunique (get_group df (group_key r))
          then drop_duplicates
                 (map (\<lambda>r. if 1 < nunique (get_group df (group_key r))
                            then r\<lparr>course_number :=
                                     projr (idxmax (value_counts (get_group df (group_key r))))\<rparr>
                            else r) df)
          else df)"
proof -
  let ?keys = "sort (remdups (map group_key df))"
  let ?f = "\<lambda>k. projr (idxmax (value_counts (get_group df k)))"
  let ?dups = "filter (\<lambda>k. 1 < nunique (get_group df k)) ?keys"
  have keys: "set ?keys = group_key ` set df" by simp
  have dk: "map fst (filter (\<lambda>(k, n). 1 < n) (map (\<lambda>(k, s). (k, nunique s)) (grouped df))) = ?dups"
    unfolding grouped_def by (induction ?keys) (simp_all add: filter_map comp_def)
  have t1: "traverse (\<lambda>(k, s). case idxmax (value_counts s) of
                                   Inl e \<Rightarrow> Inl e
                                 | Inr c \<Rightarrow> Inr (k, c)) (grouped df)
            = Inr (map (\<lambda>k. (k, ?f k)) ?keys)"
  proof -
    have "traverse (\<lambda>(k, s). case idxmax (value_counts s) of
                                   Inl e \<Rightarrow> Inl e
                                 | Inr c \<Rightarrow> Inr (k, c)) (grouped df)
          = Inr (map (\<lambda>(k, s). (k, projr (idxmax (value_counts s)))) (grouped df))"
    proof (rule traverse_Inr_map)
      fix x assume "x \<in> set (grouped df)"
      then obtain r where "r \<in> set df" "x = (group_key r, get_group df (group_key r))"
        by (auto simp: grouped_def)
      with idxmax_value_counts [OF get_group_nonempty, of r df]
      show "(case x of (k, s) \<Rightarrow> (case idxmax (value_counts s) of
                                   Inl e \<Rightarrow> Inl e
                                 | Inr c \<Rightarrow> Inr (k, c)))
            = Inr (case x of (k, s) \<Rightarrow> (k, projr (idxmax (value_counts s))))"
        by auto
    qed
    then show ?thesis by (simp add: grouped_def comp_def)
  qed
  have t2: "traverse (\<lambda>key. case map_of (map (\<lambda>k. (k, ?f k)) ?keys) key of
                                     None \<Rightarrow> Inl (KeyError (fst key))
                                   | Some c \<Rightarrow> Inr (key, c)) ?dups
            = Inr (map (\<lambda>k. (k, ?f k)) ?dups)"
    by (rule traverse_Inr_map) (simp add: map_of_map_key)
  have mg: "mapping_get (map (\<lambda>k. (k, ?f k)) ?dups) r
        = (if 1 < nunique (get_group df (group_key r))
           then r\<lparr>course_number := ?f (group_key r)\<rparr> else r)" if "r \<in> set df" for r
    using that by (simp add: mapping_get_def map_of_map_key)
  have ex: "(0 < length ?dups) = (\<exists>r\<in>set df. 1 < nunique (get_group df (group_key r)))"
    by (auto simp: filter_empty_conv)
  have "canonicalizer df =
     (if 0 < length ?dups
      then Inr (drop_duplicates (map (mapping_get (map (\<lambda>k. (k, ?f k)) ?dups)) df))
      else Inr df)"
    unfolding canonicalizer_def Let_def dk by (simp only: t1 t2 and_then_Inr)
  also have "map (mapping_get (map (\<lambda>k. (k, ?f k)) ?dups)) df
      = map (\<lambda>r. if 1 < nunique (get_group df (group_key r))
                   then r\<lparr>course_number := ?f (group_key r)\<rparr> else r) df"
    by (rule map_cong [OF refl]) (rule mg)
  finally show ?thesis unfolding ex by simp
qed

lemma group_key_course_number_update [simp]:
  "group_key (r\<lparr>course_number := c\<rparr>) = group_key r"
  by (simp add: group_key_def)

lemma course_number_in_get_group:
  "r \<in> set df \<Longrightarrow> course_number r \<in> set (get_group df (group_key r))"
  by (auto simp: get_group_def)

lemma canonical_code:
  assumes "r \<in> set df"
  shows "projr (idxmax (value_counts (get_group df (group_key r)))) \<in> set (get_group df (group_key r))
       \<and> (\<forall>c. count_list (get_group df (group_key r)) c
              \<le> count_list (get_group df (group_key r))
                   (projr (idxmax (value_counts (get_group df (group_key r))))))"
  using idxmax_value_counts [OF get_group_nonempty [OF assms]] by auto

text \<open>The rows of the result: every row of the table, rewritten if its group has several codes.\<close>

lemma set_canonicalizer:
  assumes "canonicalizer df = Inr out"
  shows "set out =
           (\<lambda>r. if 1 < nunique (get_group df (group_key r))
                 then r\<lparr>course_number :=
                          projr (idxmax (value_counts (get_group df (group_key r))))\<rparr>
                 else r) ` set df"
    (is "_ = ?rw ` _")
proof (cases "\<exists>r\<in>set df. 1 < nunique (get_group df (group_key r))")
  case True
  with assms canonicalizer_Inr [of df] have "out = drop_duplicates (map ?rw df)"
    by (simp only: if_True sum.inject)
  then have "set out = set (map ?rw df)" by (simp only: set_drop_duplicates)
  then show ?thesis by (simp only: set_map)
next
  case False
  with assms canonicalizer_Inr [of df] have "out = df"
    by (simp only: if_False sum.inject)
  moreover from False have "?rw r = r" if "r \<in> set df" for r
    using that by auto
  ultimately show ?thesis by force
qed

text \<open>
  Claim C1. The canonicaliser never raises. In its result any two rows with equal course
  text and credits have equal course numbers. A row whose group had more than one distinct
  course number in the table carries a number of that group whose count in the group was
  maximal. A row whose group had one course number is a row of the table, and every such
  row of the table is in the result: these groups are not rewritten. Every row of the
  table is in the result up to its course number, and the result has no other rows.
\<close>

theorem canonicalizer_converges:
  fixes df :: "(string, 'z) row_scheme list"
  shows "\<exists>out. canonicalizer df = Inr out
     \<and> (\<forall>r\<in>set out. \<forall>r'\<in>set out.
          group_key r = group_key r' \<longrightarrow> course_number r = course_number r')
     \<and> (\<forall>r\<in>set out. 1 < nunique (get_group df (group_key r)) \<longrightarrow>
          course_number r \<in> set (get_group df (group_key r)) \<and>
          (\<forall>c. count_list (get_group df (group_key r)) c
                 \<le> count_list (get_group df (group_key r)) (course_number r)))
     \<and> (\<forall>r\<in>set out. nunique (get_group df (group_key r)) \<le> 1 \<longrightarrow> r \<in> set df)
     \<and> (\<forall>r\<in>set df. nunique (get_group df (group_key r)) \<le> 1 \<longrightarrow> r \<in> set out)
     \<and> (\<forall>r\<in>set df. \<exists>c. r\<lparr>course_number := c\<rparr> \<in> set out)
     \<and> (\<forall>r\<in>set out. \<exists>r0\<in>set df. r = r0\<lparr>course_number := course_number r\<rparr>)"
proof -
  let ?G = "\<lambda>r. get_group df (group_key r)"
  let ?f = "\<lambda>r. projr (idxmax (value_counts (?G r)))"
  let ?rw = "\<lambda>r. if 1 < nunique (?G r) then r\<lparr>course_number := ?f r\<rparr> else r"
  obtain out where out: "canonicalizer df = Inr out" by (simp add: canonicalizer_Inr)
  note s = set_canonicalizer [OF out]
  have key: "group_key (?rw r) = group_key r" for r :: "(string, 'z) row_scheme" by simp
  have grp: "?G (?rw r) = ?G r" for r :: "(string, 'z) row_scheme" by simp
  have same_f: "?f a = ?f b" if "group_key a = group_key b"
    for a b :: "(string, 'z) row_scheme"
    using that by simp
  have c1: "course_number r = course_number r'"
    if "r \<in> set out" "r' \<in> set out" "group_key r = group_key r'" for r r'
  proof -
    from that(1) s obtain a where a: "a \<in> set df" "r = ?rw a" by auto
    from that(2) s obtain b where b: "b \<in> set df" "r' = ?rw b" by auto
    have ka: "group_key r = group_key a" unfolding a(2) by (rule key)
    have kb: "group_key r' = group_key b" unfolding b(2) by (rule key)
    from ka kb that(3) have k: "group_key a = group_key b" by simp
    show ?thesis
    proof (cases "1 < nunique (?G a)")
      case True
      with k a b same_f [OF k] show ?thesis by simp
    next
      case False
      then have le: "nunique (?G a) \<le> 1" by simp
      from course_number_in_get_group [OF a(1)] course_number_in_get_group [OF b(1)] k
      have "course_number a = course_number b"
        by (intro nunique_le_1 [OF le]) simp_all
      with False k a b show ?thesis by simp
    qed
  qed
  have c2: "course_number r \<in> set (?G r) \<and>
          (\<forall>c. count_list (?G r) c \<le> count_list (?G r) (course_number r))"
    if "r \<in> set out" "1 < nunique (?G r)" for r
  proof -
    from that(1) s obtain a where a: "a \<in> set df" "r = ?rw a" by auto
    with that(2) grp [of a] have "1 < nunique (?G a)" by simp
    with a have r: "r = a\<lparr>course_number := ?f a\<rparr>" by simp
    with canonical_code [OF a(1)] show ?thesis by simp
  qed
  have c3: "r \<in> set df" if "r \<in> set out" "nunique (?G r) \<le> 1" for r
  proof -
    from that(1) s obtain a where a: "a \<in> set df" "r = ?rw a" by auto
    with that(2) grp [of a] have "\<not> 1 < nunique (?G a)" by simp
    with a show ?thesis by simp
  qed
  have c4: "r \<in> set out" if "r \<in> set df" "nunique (?G r) \<le> 1" for r
  proof -
    from that have "?rw r = r" by simp
    with that(1) s show ?thesis by force
  qed
  have c5: "\<exists>c. r\<lparr>course_number := c\<rparr> \<in> set out" if "r \<in> set df" for r
  proof (cases "1 < nunique (?G r)")
    case True
    with that s have "r\<lparr>course_number := ?f r\<rparr> \<in> set out" by force
    then show ?thesis by blast
  next
    case False
    with that s have "r \<in> set out" by force
    then have "r\<lparr>course_number := course_number r\<rparr> \<in> set out" by simp
    then show ?thesis by blast
  qed
  have c6: "\<exists>r0\<in>set df. r = r0\<lparr>course_number := course_number r\<rparr>" if "r \<in> set out" for r
  proof -
    from that s obtain a where a: "a \<in> set df" "r = ?rw a" by auto
    then have "r = a\<lparr>course_number := course_number r\<rparr>" by (cases "1 < nunique (?G a)") simp_all
    with a(1) show ?thesis by blast
  qed
  show ?thesis
  proof (intro exI [of _ out] conjI ballI impI)
    show "canonicalizer df = Inr out" by (rule out)
  qed (use c1 c2 c3 c4 c5 c6 in blast)+
qed

theorem canonicalizer_converges_witness:
  "canonicalizer database_systems_table =
     Inr [example_row ''s1'' ''02132'' ''DATABASE SYSTEMS'' ''10/01/2023'',
          example_row ''s2'' ''02132'' ''DATABASE SYSTEMS'' ''10/01/2023'',
          example_row ''s3'' ''02132'' ''DATABASE SYSTEMS'' ''10/01/2023'',
          example_row ''s4'' ''02132'' ''DATABASE SYSTEMS'' ''12/06/2023'',
          example_row ''s1'' ''02101'' ''ALGO'' ''12/06/2023'']
   \<and> (\<exists>out. canonicalizer database_systems_table = Inr out
     \<and> (\<forall>r\<in>set out. \<forall>r'\<in>set out.
          group_key r = group_key r' \<longrightarrow> course_number r = course_number r')
     \<and> (\<forall>r\<in>set out. 1 < nunique (get_group database_systems_table (group_key r)) \<longrightarrow>
          course_number r \<in> set (get_group database_systems_table (group_key r)) \<and>
          (\<forall>c. count_list (get_group database_systems_table (group_key r)) c
                 \<le> count_list (get_group database_systems_table (group_key r)) (course_number r)))
     \<and> (\<forall>r\<in>set out. nunique (get_group database_systems_table (group_key r)) \<le> 1
            \<longrightarrow> r \<in> set database_systems_table)
     \<and> (\<forall>r\<in>set database_systems_table.
            nunique (get_group database_systems_table (group_key r)) \<le> 1 \<longrightarrow> r \<in> set out)
     \<and> (\<forall>r\<in>set database_systems_table. \<exists>c. r\<lparr>course_number := c\<rparr> \<in> set out)
     \<and> (\<forall>r\<in>set out. \<exists>r0\<in>set database_systems_table.
            r = r0\<lparr>course_number := course_number r\<rparr>))"
proof -
  have e: "canonicalizer database_systems_table =
     Inr [example_row ''s1'' ''02132'' ''DATABASE SYSTEMS'' ''10/01/2023'',
          example_row ''s2'' ''02132'' ''DATABASE SYSTEMS'' ''10/01/2023'',
          example_row ''s3'' ''02132'' ''DATABASE SYSTEMS'' ''10/01/2023'',
          example_row ''s4'' ''02132'' ''DATABASE SYSTEMS'' ''12/06/2023'',
          example_row ''s1'' ''02101'' ''ALGO'' ''12/06/2023'']"
    by code_simp
  from e canonicalizer_converges [of database_systems_table] show ?thesis
    by (rule conjI)
qed

subsection \<open>Attempt counter\<close>

lemma length_cumcount [simp]: "length (cumcount seen ks) = length ks"
  by (induction ks arbitrary: seen) simp_all

lemma cumcount_nth:
  "i < length ks \<Longrightarrow>
     cumcount seen ks ! i = count_list seen (ks ! i) + count_list (take i ks) (ks ! i)"
proof (induction ks arbitrary: seen i)
  case Nil
  then show ?case by simp
next
  case (Cons k ks)
  show ?case
  proof (cases i)
    case 0
    then show ?thesis by simp
  next
    case (Suc j)
    with Cons.prems have "j < length ks" by simp
    from Cons.IH [OF this, of "seen @ [k]"] Suc show ?thesis by simp
  qed
qed

lemma count_list_map_filter:
  "count_list (map f xs) k = length (filter (\<lambda>x. f x = k) xs)"
  by (induction xs) simp_all

lemma length_attempt_counter [simp]: "length (attempt_counter df) = length df"
  by (simp add: attempt_counter_def)

lemma attempt_counter_nth:
  assumes "i < length df"
  shows "attempt_counter df ! i =
           erow.extend (df ! i)
             (arow.fields (Suc (length (filter (\<lambda>r. attempt_key r = attempt_key (df ! i))
                                           (take i df)))))"
  using assms
  by (simp add: attempt_counter_def cumcount_nth take_map count_list_map_filter)

lemma map_truncate_attempt_counter: "map erow.truncate (attempt_counter df) = df"
  by (rule nth_equalityI) (simp_all add: attempt_counter_nth)

lemma length_filter_take_mono:
  assumes "j < i" "i \<le> length xs" "P (xs ! j)"
  shows "length (filter P (take j xs)) < length (filter P (take i xs))"
proof -
  from assms have jl: "j < length (take i xs)" by simp
  have "take i xs = take j (take i xs) @ drop j (take i xs)"
    by (rule append_take_drop_id [symmetric])
  also have "take j (take i xs) = take j xs" using assms(1) by (simp add: min_def)
  also have "drop j (take i xs) = take i xs ! j # drop (Suc j) (take i xs)"
    using jl by (rule Cons_nth_drop_Suc [symmetric])
  also have "take i xs ! j = xs ! j" using assms(1) by simp
  finally have "take i xs = take j xs @ xs ! j # drop (Suc j) (take i xs)" .
  then have "filter P (take i xs)
      = filter P (take j xs) @ filter P (xs ! j # drop (Suc j) (take i xs))"
    by (metis filter_append)
  with assms(3) show ?thesis by simp
qed

text \<open>
  Claim C3, as stated, fails. The attempt counter counts in row order, and the rows are not
  in order of date: here the attempt of November 2023 stands before the attempt of June
  2023 in the file and after the aligner, and gets attempt number 1; the earlier attempt
  gets number 2.
\<close>

theorem later_attempt_numbered_first:
  "prepare_data repeated_course_frame =
     Inr [example_output_row (example_row ''s1'' ''02101'' ''ALGO'' ''2023-06-15'')
            ''Spring 2023'' ''2023-06-01'' 2,
          example_output_row (example_row ''s1'' ''02101'' ''ALGO'' ''2023-11-15'')
            ''Fall 2023'' ''2023-12-01'' 1,
          example_output_row (example_row ''s1'' ''02102'' ''LOGIC'' ''2023-06-16'')
            ''Spring 2023'' ''2023-06-01'' 1]
   \<and> grading_date (example_output_row (example_row ''s1'' ''02101'' ''ALGO'' ''2023-06-15'')
                      ''Spring 2023'' ''2023-06-01'' 2)
       < grading_date (example_output_row (example_row ''s1'' ''02101'' ''ALGO'' ''2023-11-15'')
                         ''Fall 2023'' ''2023-12-01'' 1)
   \<and> semester_end (example_output_row (example_row ''s1'' ''02101'' ''ALGO'' ''2023-06-15'')
                      ''Spring 2023'' ''2023-06-01'' 2)
       < semester_end (example_output_row (example_row ''s1'' ''02101'' ''ALGO'' ''2023-11-15'')
                         ''Fall 2023'' ''2023-12-01'' 1)
   \<and> attempt (example_output_row (example_row ''s1'' ''02101'' ''ALGO'' ''2023-11-15'')
                 ''Fall 2023'' ''2023-12-01'' 1)
       < attempt (example_output_row (example_row ''s1'' ''02101'' ''ALGO'' ''2023-06-15'')
                    ''Spring 2023'' ''2023-06-01'' 2)"
  by code_simp

text \<open>
  Claim C3, amended. The attempt counter numbers the records of every (student, course
  number) group in the row order of the table it is given: a row keeps its columns, its
  attempt number is one more than the number of rows of its group above it, and so a row
  of its group that stands above it has a lower attempt number.
\<close>

theorem attempt_counter_row_order:
  assumes "i < length df"
  shows "erow.truncate (attempt_counter df ! i) = df ! i
       \<and> attempt (attempt_counter df ! i)
           = Suc (length (filter (\<lambda>r. attempt_key r = attempt_key (df ! i)) (take i df)))
       \<and> (\<forall>j<i. attempt_key (df ! j) = attempt_key (df ! i)
              \<longrightarrow> attempt (attempt_counter df ! j) < attempt (attempt_counter df ! i))"
proof (intro conjI allI impI)
  show "erow.truncate (attempt_counter df ! i) = df ! i"
    using assms by (simp add: attempt_counter_nth)
  show "attempt (attempt_counter df ! i)
           = Suc (length (filter (\<lambda>r. attempt_key r = attempt_key (df ! i)) (take i df)))"
    using assms by (simp add: attempt_counter_nth)
next
  fix j assume j: "j < i" and k: "attempt_key (df ! j) = attempt_key (df ! i)"
  from j assms have jl: "j < length df" by simp
  from length_filter_take_mono [of j i df "\<lambda>r. attempt_key r = attempt_key (df ! i)"] j assms k
  have "length (filter (\<lambda>r. attempt_key r = attempt_key (df ! i)) (take j df))
        < length (filter (\<lambda>r. attempt_key r = attempt_key (df ! i)) (take i df))"
    by simp
  then show "attempt (attempt_counter df ! j) < attempt (attempt_counter df ! i)"
    using assms jl k by (simp add: attempt_counter_nth)
qed

theorem attempt_counter_row_order_witness:
  "attempt_counter
     [srow.extend (row.extend (example_row ''s1'' ''02101'' ''ALGO'' ''2023-11-15'')
                     (srow.fields ''Fall 2023'')) (erow.fields ''2023-12-01''),
      srow.extend (row.extend (example_row ''s1'' ''02101'' ''ALGO'' ''2023-06-15'')
                     (srow.fields ''Spring 2023'')) (erow.fields ''2023-06-01'')]
     = [example_output_row (example_row ''s1'' ''02101'' ''ALGO'' ''2023-11-15'')
          ''Fall 2023'' ''2023-12-01'' 1,
        example_output_row (example_row ''s1'' ''02101'' ''ALGO'' ''2023-06-15'')
          ''Spring 2023'' ''2023-06-01'' 2]
   \<and> attempt (attempt_counter
        [srow.extend (row.extend (example_row ''s1'' ''02101'' ''ALGO'' ''2023-11-15'')
                        (srow.fields ''Fall 2023'')) (erow.fields ''2023-12-01''),
         srow.extend (row.extend (example_row ''s1'' ''02101'' ''ALGO'' ''2023-06-15'')
                        (srow.fields ''Spring 2023'')) (erow.fields ''2023-06-01'')] ! 0)
       < attempt (attempt_counter
        [srow.extend (row.extend (example_row ''s1'' ''02101'' ''ALGO'' ''2023-11-15'')
                        (srow.fields ''Fall 2023'')) (erow.fields ''2023-12-01''),
         srow.extend (row.extend (example_row ''s1'' ''02101'' ''ALGO'' ''2023-06-15'')
                        (srow.fields ''Spring 2023'')) (erow.fields ''2023-06-01'')] ! 1)"
proof -
  let ?df = "[srow.extend (row.extend (example_row ''s1'' ''02101'' ''ALGO'' ''2023-11-15'')
                     (srow.fields ''Fall 2023'')) (erow.fields ''2023-12-01''),
      srow.extend (row.extend (example_row ''s1'' ''02101'' ''ALGO'' ''2023-06-15'')
                     (srow.fields ''Spring 2023'')) (erow.fields ''2023-06-01'')]"
  have e: "attempt_counter ?df
     = [example_output_row (example_row ''s1'' ''02101'' ''ALGO'' ''2023-11-15'')
          ''Fall 2023'' ''2023-12-01'' 1,
        example_output_row (example_row ''s1'' ''02101'' ''ALGO'' ''2023-06-15'')
          ''Spring 2023'' ''2023-06-01'' 2]"
    by code_simp
  have l: "1 < length ?df" by simp
  have k: "attempt_key (?df ! 0) = attempt_key (?df ! 1)" by code_simp
  from attempt_counter_row_order [OF l] k
  have "attempt (attempt_counter ?df ! 0) < attempt (attempt_counter ?df ! 1)"
    by blast
  with e show ?thesis by (rule conjI)
qed

subsection \<open>The whole script\<close>

lemma prepare_data_Inr:
  assumes "prepare_data fr = Inr out"
  obtains c n k d s a where
    "cohort_filter fr = Inr c"
    "apply_normalize_text (institute_filter (minimum_activity_filter c)) = Inr n"
    "canonicalizer n = Inr k"
    "convert_grading_dates k = Inr d"
    "add_semester d = Inr s"
    "groupby_apply_set_semester_grading_dates s = Inr a"
    "a \<noteq> []"
    "out = sorter (attempt_counter a)"
  using assms unfolding prepare_data_def
  by (auto simp: and_then_eq_Inr split: if_splits)

lemma truncate_sel [simp]:
  "study_number (row.truncate r) = study_number r"
  "study_number (srow.truncate x) = study_number x"
  "study_number (erow.truncate y) = study_number y"
  by (simp_all add: row.defs srow.defs erow.defs)

lemma row_truncate_truncate [simp]:
  "row.truncate (srow.truncate x) = row.truncate x"
  "row.truncate (erow.truncate y) = row.truncate y"
  by (simp_all add: row.defs srow.defs erow.defs)

lemma minimum_activity_filter_count:
  assumes "r \<in> set (minimum_activity_filter c)"
  shows "r \<in> set c \<and> 2 < count_list (map study_number c) (study_number r)"
  using assms by (auto simp: minimum_activity_filter_def Let_def)

lemma set_institute_filter: "set (institute_filter df) \<subseteq> set df"
  by (auto simp: institute_filter_def Let_def)

lemma study_number_with_course_text [simp]:
  "study_number (with_course_text r t) = study_number r"
  by (simp add: with_course_text_def)

lemma apply_normalize_text_study_numbers:
  assumes "apply_normalize_text df = Inr n" and "x \<in> set n"
  shows "\<exists>r\<in>set df. study_number x = study_number r"
proof -
  from assms(2) obtain i where i: "i < length n" and x: "x = n ! i"
    by (auto simp: in_set_conv_nth)
  from traverse_Inr_nth [OF assms(1) [unfolded apply_normalize_text_def]] i
  have l: "length n = length df"
    and "(case course_text (df ! i) of
           None \<Rightarrow> Inl AttributeError
         | Some text \<Rightarrow> Inr (with_course_text (df ! i) (normalize_text text))) = Inr (n ! i)"
    by simp_all
  then obtain t where "with_course_text (df ! i) t = n ! i"
    by (auto split: option.splits)
  from this [symmetric] have "study_number (n ! i) = study_number (df ! i)" by simp
  with i l x show ?thesis by auto
qed

lemma canonicalizer_study_numbers:
  assumes "canonicalizer n = Inr k" and "x \<in> set k"
  shows "\<exists>r\<in>set n. study_number x = study_number r"
proof -
  from assms set_canonicalizer [OF assms(1)] obtain r where r: "r \<in> set n"
    and x: "x = (if 1 < nunique (get_group n (group_key r))
                 then r\<lparr>course_number :=
                          projr (idxmax (value_counts (get_group n (group_key r))))\<rparr>
                 else r)"
    by auto
  from x have "study_number x = study_number r" by (simp split: if_splits)
  with r show ?thesis by blast
qed

lemma convert_grading_dates_study_numbers:
  assumes "convert_grading_dates k = Inr d" and "x \<in> set d"
  shows "\<exists>r\<in>set k. study_number x = study_number r"
proof -
  from assms(2) obtain i where i: "i < length d" and x: "x = d ! i"
    by (auto simp: in_set_conv_nth)
  from convert_grading_dates_length [OF assms(1)] i have ik: "i < length k" by simp
  from convert_grading_dates_nth [OF assms(1) ik] x
  have "study_number x = study_number (k ! i)" by auto
  with ik show ?thesis by auto
qed

lemma add_semester_truncate:
  assumes "add_semester d = Inr s"
  shows "map row.truncate s = d"
proof (rule nth_equalityI)
  from traverse_Inr_nth [OF assms [unfolded add_semester_def]]
  have l: "length s = length d"
    and n: "\<forall>i<length d. (case get_semester (grading_date (d ! i)) of
           Inl e \<Rightarrow> Inl e
         | Inr l \<Rightarrow> Inr (row.extend (d ! i) (srow.fields l))) = Inr (s ! i)"
    by simp_all
  show "length (map row.truncate s) = length d" using l by simp
  fix i assume "i < length (map row.truncate s)"
  with l have i: "i < length d" by simp
  with n have "(case get_semester (grading_date (d ! i)) of
           Inl e \<Rightarrow> Inl e
         | Inr l \<Rightarrow> Inr (row.extend (d ! i) (srow.fields l))) = Inr (s ! i)"
    by blast
  then obtain lab where "row.extend (d ! i) (srow.fields lab) = s ! i"
    by (auto split: sum.splits)
  from this [symmetric] i l show "map row.truncate s ! i = d ! i" by simp
qed

lemma row_truncate_erow_extend [simp]:
  "row.truncate (erow.extend r (arow.fields n)) = row.truncate r"
  by (simp add: row.defs erow.defs arow.defs)

text \<open>After the canonicaliser no stage removes a row or changes one of the loaded columns.\<close>

lemma later_stages_mset:
  assumes "add_semester d = Inr s"
    and "groupby_apply_set_semester_grading_dates s = Inr a"
  shows "mset (map row.truncate (sorter (attempt_counter a))) = mset d"
proof -
  have "mset (map row.truncate (sorter (attempt_counter a)))
      = image_mset row.truncate (mset (sorter (attempt_counter a)))" by simp
  also have "\<dots> = image_mset row.truncate (mset (attempt_counter a))"
    by (simp add: sorter_def)
  also have "\<dots> = mset (map row.truncate (attempt_counter a))" by simp
  also have "map row.truncate (attempt_counter a) = map row.truncate a"
    by (rule nth_equalityI) (simp_all add: attempt_counter_nth)
  also have "mset (map row.truncate a) = image_mset row.truncate (mset (map srow.truncate a))"
    by (simp add: multiset.map_comp comp_def)
  also have "\<dots> = image_mset row.truncate (mset s)"
    by (simp only: groupby_apply_mset [OF assms])
  also have "\<dots> = mset (map row.truncate s)" by simp
  also have "\<dots> = mset d" by (simp only: add_semester_truncate [OF assms(1)])
  finally show ?thesis .
qed

lemma later_stages_study_numbers:
  assumes "add_semester d = Inr s"
    and "groupby_apply_set_semester_grading_dates s = Inr a"
    and "x \<in> set (sorter (attempt_counter a))"
  shows "\<exists>r\<in>set d. study_number x = study_number r"
proof -
  from assms(3) have "row.truncate x \<in># mset (map row.truncate (sorter (attempt_counter a)))"
    by simp
  then have "row.truncate x \<in> set d"
    by (simp only: later_stages_mset [OF assms(1,2)] set_mset_mset)
  then show ?thesis by (intro bexI [of _ "row.truncate x"]) simp_all
qed

text \<open>
  Claim C4, as stated, fails. The activity filter runs before the canonicaliser, which
  drops duplicate rows: student \<^verbatim>\<open>s1\<close> has three records when the filter counts, two of
  them become equal once their course numbers are merged, and two rows are left in the
  output.
\<close>

theorem student_left_with_two_rows:
  "prepare_data merged_codes_frame =
     Inr [example_output_row (example_row ''s1'' ''02101'' ''ALGO'' ''2023-06-16'')
            ''Spring 2023'' ''2023-06-01'' 1,
          example_output_row (example_row ''s1'' ''02132'' ''DATABASE SYSTEMS'' ''2023-11-15'')
            ''Fall 2023'' ''2023-12-01'' 1,
          example_output_row (example_row ''s2'' ''02101'' ''ALGO'' ''2023-06-16'')
            ''Spring 2023'' ''2023-06-01'' 1,
          example_output_row (example_row ''s2'' ''02102'' ''LOGIC'' ''2023-06-16'')
            ''Spring 2023'' ''2023-06-01'' 1,
          example_output_row (example_row ''s2'' ''02132'' ''DATABASE SYSTEMS'' ''2023-11-15'')
            ''Fall 2023'' ''2023-12-01'' 1]
   \<and> count_list
        (map study_number
          [example_output_row (example_row ''s1'' ''02101'' ''ALGO'' ''2023-06-16'')
             ''Spring 2023'' ''2023-06-01'' 1,
           example_output_row (example_row ''s1'' ''02132'' ''DATABASE SYSTEMS'' ''2023-11-15'')
             ''Fall 2023'' ''2023-12-01'' 1,
           example_output_row (example_row ''s2'' ''02101'' ''ALGO'' ''2023-06-16'')
             ''Spring 2023'' ''2023-06-01'' 1,
           example_output_row (example_row ''s2'' ''02102'' ''LOGIC'' ''2023-06-16'')
             ''Spring 2023'' ''2023-06-01'' 1,
           example_output_row (example_row ''s2'' ''02132'' ''DATABASE SYSTEMS'' ''2023-11-15'')
             ''Fall 2023'' ''2023-12-01'' 1])
        ''s1'' = 2"
  by code_simp

text \<open>
  Claim C4, amended. Every student in the final output had more than two records in the
  table of the cohort, which is the table the activity filter counts in.
\<close>

theorem activity_filter_at_filter_time:
  assumes "prepare_data fr = Inr out" and "r \<in> set out"
  shows "\<exists>c. cohort_filter fr = Inr c \<and> 2 < count_list (map study_number c) (study_number r)"
proof -
  from assms(1) obtain c n k d s a where
    c: "cohort_filter fr = Inr c"
    and n: "apply_normalize_text (institute_filter (minimum_activity_filter c)) = Inr n"
    and k: "canonicalizer n = Inr k"
    and d: "convert_grading_dates k = Inr d"
    and s: "add_semester d = Inr s"
    and a: "groupby_apply_set_semester_grading_dates s = Inr a"
    and out: "out = sorter (attempt_counter a)"
    by (rule prepare_data_Inr)
  from later_stages_study_numbers [OF s a] assms(2) out
  obtain r1 where "r1 \<in> set d" "study_number r = study_number r1" by blast
  with convert_grading_dates_study_numbers [OF d]
  obtain r2 where "r2 \<in> set k" "study_number r = study_number r2" by metis
  with canonicalizer_study_numbers [OF k]
  obtain r3 where "r3 \<in> set n" "study_number r = study_number r3" by metis
  with apply_normalize_text_study_numbers [OF n]
  obtain r4 where r4: "r4 \<in> set (institute_filter (minimum_activity_filter c))"
    "study_number r = study_number r4" by metis
  with set_institute_filter have "r4 \<in> set (minimum_activity_filter c)" by blast
  from minimum_activity_filter_count [OF this] r4(2) c show ?thesis by simp
qed

theorem activity_filter_at_filter_time_witness:
  "prepare_data duplicate_rows_frame =
     Inr [example_output_row (example_row ''s1'' ''02101'' ''ALGO'' ''2023-11-15'')
            ''Fall 2023'' ''2023-12-01'' 1,
          example_output_row (example_row ''s1'' ''02101'' ''ALGO'' ''2023-11-15'')
            ''Fall 2023'' ''2023-12-01'' 2,
          example_output_row (example_row ''s1'' ''02102'' ''LOGIC'' ''2023-06-16'')
            ''Spring 2023'' ''2023-06-01'' 1]
   \<and> (\<exists>c. cohort_filter duplicate_rows_frame = Inr c
          \<and> 2 < count_list (map study_number c) ''s1'')"
proof -
  let ?r = "example_output_row (example_row ''s1'' ''02102'' ''LOGIC'' ''2023-06-16'')
            ''Spring 2023'' ''2023-06-01'' 1"
  have e: "prepare_data duplicate_rows_frame =
     Inr [example_output_row (example_row ''s1'' ''02101'' ''ALGO'' ''2023-11-15'')
            ''Fall 2023'' ''2023-12-01'' 1,
          example_output_row (example_row ''s1'' ''02101'' ''ALGO'' ''2023-11-15'')
            ''Fall 2023'' ''2023-12-01'' 2,
          ?r]"
    by code_simp
  have s: "study_number ?r = ''s1''" by code_simp
  from activity_filter_at_filter_time [OF e, of ?r] s
  have "\<exists>c. cohort_filter duplicate_rows_frame = Inr c
          \<and> 2 < count_list (map study_number c) ''s1''"
    by simp
  with e show ?thesis by (rule conjI)
qed

text \<open>
  Claim C10. If every group of equal course text and credits has one course number, the
  canonicaliser returns the table as it is, duplicate rows included; if some group has
  several, the result has no two equal rows. In the first case the final output, cut back
  to the loaded columns, has exactly the rows of the table with their dates rewritten,
  each as often as the table has it.
\<close>

theorem duplicates_pass_through:
  fixes df :: "string row list"
  shows "((\<forall>r\<in>set df. nunique (get_group df (group_key r)) \<le> 1) \<longrightarrow> canonicalizer df = Inr df)
       \<and> ((\<exists>r\<in>set df. 1 < nunique (get_group df (group_key r)))
            \<longrightarrow> (\<exists>k. canonicalizer df = Inr k \<and> distinct k))
       \<and> ((\<forall>r\<in>set df. nunique (get_group df (group_key r)) \<le> 1)
            \<and> cohort_filter fr = Inr c
            \<and> apply_normalize_text (institute_filter (minimum_activity_filter c)) = Inr df
            \<and> prepare_data fr = Inr out
            \<longrightarrow> (\<exists>d. convert_grading_dates df = Inr d \<and> length d = length df
                     \<and> mset (map row.truncate out) = mset d))"
proof (intro conjI impI)
  assume "\<forall>r\<in>set df. nunique (get_group df (group_key r)) \<le> 1"
  then have "\<not> (\<exists>r\<in>set df. 1 < nunique (get_group df (group_key r)))" by force
  then show "canonicalizer df = Inr df" by (simp only: canonicalizer_Inr if_False)
next
  assume "\<exists>r\<in>set df. 1 < nunique (get_group df (group_key r))"
  then show "\<exists>k. canonicalizer df = Inr k \<and> distinct k"
    by (simp only: canonicalizer_Inr if_True) simp
next
  assume h: "(\<forall>r\<in>set df. nunique (get_group df (group_key r)) \<le> 1)
            \<and> cohort_filter fr = Inr c
            \<and> apply_normalize_text (institute_filter (minimum_activity_filter c)) = Inr df
            \<and> prepare_data fr = Inr out"
  then have "\<not> (\<exists>r\<in>set df. 1 < nunique (get_group df (group_key r)))" by force
  then have can: "canonicalizer df = Inr df" by (simp only: canonicalizer_Inr if_False)
  from h obtain c' n k d s a where
    c: "cohort_filter fr = Inr c'"
    and n: "apply_normalize_text (institute_filter (minimum_activity_filter c')) = Inr n"
    and k: "canonicalizer n = Inr k"
    and d: "convert_grading_dates k = Inr d"
    and s: "add_semester d = Inr s"
    and a: "groupby_apply_set_semester_grading_dates s = Inr a"
    and out: "out = sorter (attempt_counter a)"
    by (blast elim: prepare_data_Inr)
  from h c have "c' = c" by simp
  with h n have "n = df" by simp
  with k can have "k = df" by simp
  with d have d': "convert_grading_dates df = Inr d" by simp
  from later_stages_mset [OF s a] out have "mset (map row.truncate out) = mset d" by simp
  with d' convert_grading_dates_length [OF d'] show
    "\<exists>d. convert_grading_dates df = Inr d \<and> length d = length df
                     \<and> mset (map row.truncate out) = mset d"
    by blast
qed

theorem duplicates_pass_through_witness:
  "canonicalizer
     [example_row ''s1'' ''02101'' ''ALGO'' ''15/11/2023'',
      example_row ''s1'' ''02101'' ''ALGO'' ''15/11/2023'',
      example_row ''s1'' ''02102'' ''LOGIC'' ''16/06/2023'']
     = Inr [example_row ''s1'' ''02101'' ''ALGO'' ''15/11/2023'',
            example_row ''s1'' ''02101'' ''ALGO'' ''15/11/2023'',
            example_row ''s1'' ''02102'' ''LOGIC'' ''16/06/2023'']
   \<and> (\<exists>k. canonicalizer database_systems_table = Inr k \<and> distinct k)
   \<and> (\<exists>d. convert_grading_dates
              [example_row ''s1'' ''02101'' ''ALGO'' ''15/11/2023'',
               example_row ''s1'' ''02101'' ''ALGO'' ''15/11/2023'',
               example_row ''s1'' ''02102'' ''LOGIC'' ''16/06/2023''] = Inr d
          \<and> length d = 3
          \<and> mset (map row.truncate
                [example_output_row (example_row ''s1'' ''02101'' ''ALGO'' ''2023-11-15'')
                   ''Fall 2023'' ''2023-12-01'' 1,
                 example_output_row (example_row ''s1'' ''02101'' ''ALGO'' ''2023-11-15'')
                   ''Fall 2023'' ''2023-12-01'' 2,
                 example_output_row (example_row ''s1'' ''02102'' ''LOGIC'' ''2023-06-16'')
                   ''Spring 2023'' ''2023-06-01'' 1]) = mset d)"
proof -
  let ?df = "[example_row ''s1'' ''02101'' ''ALGO'' ''15/11/2023'',
      example_row ''s1'' ''02101'' ''ALGO'' ''15/11/2023'',
      example_row ''s1'' ''02102'' ''LOGIC'' ''16/06/2023'']"
  let ?out = "[example_output_row (example_row ''s1'' ''02101'' ''ALGO'' ''2023-11-15'')
                   ''Fall 2023'' ''2023-12-01'' 1,
                 example_output_row (example_row ''s1'' ''02101'' ''ALGO'' ''2023-11-15'')
                   ''Fall 2023'' ''2023-12-01'' 2,
                 example_output_row (example_row ''s1'' ''02102'' ''LOGIC'' ''2023-06-16'')
                   ''Spring 2023'' ''2023-06-01'' 1]"
  let ?c = "map row.truncate
              [example_record ''s1'' ''02101'' (Some ''Algo'') ''15/11/2023'',
               example_record ''s1'' ''02101'' (Some ''Algo'') ''15/11/2023'',
               example_record ''s1'' ''02102'' (Some ''Logic'') ''16/06/2023'']"
  have single: "\<forall>r\<in>set ?df. nunique (get_group ?df (group_key r)) \<le> 1" by code_simp
  have multi: "\<exists>r\<in>set database_systems_table.
      1 < nunique (get_group database_systems_table (group_key r))" by code_simp
  have c: "cohort_filter duplicate_rows_frame = Inr ?c" by code_simp
  have n: "apply_normalize_text (institute_filter (minimum_activity_filter ?c)) = Inr ?df"
    by code_simp
  have p: "prepare_data duplicate_rows_frame = Inr ?out" by code_simp
  note t = duplicates_pass_through [of ?df duplicate_rows_frame ?c ?out]
  from t single have a: "canonicalizer ?df = Inr ?df" by blast
  from duplicates_pass_through [of database_systems_table duplicate_rows_frame ?c ?out] multi
  have b: "\<exists>k. canonicalizer database_systems_table = Inr k \<and> distinct k" by blast
  from t single c n p
  have "\<exists>d. convert_grading_dates ?df = Inr d \<and> length d = length ?df
          \<and> mset (map row.truncate ?out) = mset d" by blast
  moreover have "length ?df = 3" by simp
  ultimately have "\<exists>d. convert_grading_dates ?df = Inr d \<and> length d = 3
          \<and> mset (map row.truncate ?out) = mset d" by (simp only:)
  with a b show ?thesis by blast
qed

end
